theory Spec2Isabelle
  imports Main "HOL-Library.Multiset"
begin

section \<open>Values of the host language\<close>

text \<open>
  Times are milliseconds since the epoch (\<open>Date.now()\<close>, and the instant a store
  operation reaches the store). A JavaScript number that holds a request count is an
  integer or \<open>NaN\<close>.
\<close>

type_synonym time = int

datatype jsnum = Num int | NaN

fun js_ge :: "jsnum \<Rightarrow> jsnum \<Rightarrow> bool" where
  "js_ge (Num a) (Num b) = (b \<le> a)"
| "js_ge _ _ = False"

fun js_add :: "jsnum \<Rightarrow> jsnum \<Rightarrow> jsnum" where
  "js_add (Num a) (Num b) = Num (a + b)"
| "js_add _ _ = NaN"

fun js_sub :: "jsnum \<Rightarrow> jsnum \<Rightarrow> jsnum" where
  "js_sub (Num a) (Num b) = Num (a - b)"
| "js_sub _ _ = NaN"

definition digit_char :: "nat \<Rightarrow> char" where
  "digit_char d = ''0123456789'' ! d"

fun nat_digits :: "nat \<Rightarrow> string" where
  "nat_digits n = (if n < 10 then [digit_char n] else nat_digits (n div 10) @ [digit_char (n mod 10)])"

declare nat_digits.simps [simp del]

definition int_toString :: "int \<Rightarrow> string" where
  "int_toString i = (if i < 0 then CHR ''-'' # nat_digits (nat (- i)) else nat_digits (nat i))"

text \<open>\<open>Number.prototype.toString\<close> on a count.\<close>

fun js_toString :: "jsnum \<Rightarrow> string" where
  "js_toString (Num i) = int_toString i"
| "js_toString NaN = ''NaN''"

text \<open>The value of a decimal digit, by its character code (\<open>0\<close> is 48, \<open>9\<close> is 57).\<close>

definition digit_val :: "char \<Rightarrow> nat option" where
  "digit_val c =
     (let code = (of_char c :: nat)
      in if 48 \<le> code \<and> code \<le> 57 then Some (code - 48) else None)"

definition is_ws :: "char \<Rightarrow> bool" where
  "is_ws c = (c = CHR '' '' \<or> c = CHR 0x09 \<or> c = CHR 0x0A \<or> c = CHR 0x0B
              \<or> c = CHR 0x0C \<or> c = CHR 0x0D)"

text \<open>
  The digits of the longest decimal prefix, folded into a number; \<open>None\<close> when the
  prefix is empty.
\<close>

fun digits_prefix :: "string \<Rightarrow> nat option \<Rightarrow> nat option" where
  "digits_prefix [] acc = acc"
| "digits_prefix (c # cs) acc =
     (case digit_val c of
        None \<Rightarrow> acc
      | Some d \<Rightarrow> digits_prefix cs (Some ((case acc of None \<Rightarrow> 0 | Some a \<Rightarrow> 10 * a) + d)))"

text \<open>
  \<open>parseInt(s)\<close> with no radix, on the strings a counter key can hold: leading white
  space is skipped, a sign is read, then the longest run of decimal digits; no digit
  gives \<open>NaN\<close>. (The values under a \<open>rate_limit:\<close> key are written by the limiter only,
  as decimal renderings; a \<open>0x\<close> prefix and the rounding of numbers beyond \<open>2^53\<close> are
  outside this model.)
\<close>

definition parseInt :: "string \<Rightarrow> jsnum" where
  "parseInt s =
     (let s1 = dropWhile is_ws s;
          neg = (case s1 of c # _ \<Rightarrow> c = CHR ''-'' | [] \<Rightarrow> False);
          s2 = (case s1 of c # r \<Rightarrow> (if c = CHR ''-'' \<or> c = CHR ''+'' then r else s1) | [] \<Rightarrow> s1)
      in case digits_prefix s2 None of
           None \<Rightarrow> NaN
         | Some n \<Rightarrow> Num (if neg then - int n else int n))"

section \<open>Stores, faults and the console\<close>

text \<open>What a failing call raises: an \<open>Error\<close> with its message.\<close>

datatype js_error = Error string

datatype NotificationType =
    post_published | post_failed | high_engagement | low_engagement
  | account_disconnected | growth_milestone | negative_sentiment | system_alert

text \<open>
  The object that \<open>createNotification\<close> serialises into the real-time set. A set member
  is the JSON text of this object; members are compared here as the objects they
  encode. A payload (\<open>data\<close>) is carried as its JSON text, \<open>None\<close> for \<open>undefined\<close>.
\<close>

record notificationData =
  nd_type :: NotificationType
  nd_title :: string
  nd_message :: string
  nd_data :: "string option"
  nd_timestamp :: time

text \<open>Every round trip to a store, in the order the code issues them.\<close>

datatype store_op =
    RedisGet string
  | RedisSetEx string nat string
  | RedisSet string string
  | RedisSAdd string notificationData
  | RedisSMembers string
  | RedisSRem string notificationData
  | DbSelectDuePosts
  | DbSelectActiveAccounts
  | DbUpsertMetric int string int
  | DbMarkPublished int
  | DbMarkFailed int
  | DbDeleteAnalytics
  | DbDeleteConversations
  | DbDeleteFailedPosts
  | DbSelectRule int NotificationType
  | DbInsertNotification int NotificationType

datatype console_line = ConsoleLog string | ConsoleError string js_error

datatype PostStatus = pending | published | failed | cancelled

record post_row =
  post_id :: int
  post_user_id :: int
  post_account_id :: int
  post_content :: string
  post_media_urls :: "string list"
  post_scheduled_time :: time
  post_status :: PostStatus
  post_error_message :: "string option"
  post_posted_at :: "time option"
  post_created_at :: time

record account_row =
  account_id :: int
  account_user_id :: int
  account_platform :: string
  account_access_token :: "string option"
  account_is_active :: bool

record analytics_row =
  analytics_account_id :: int
  analytics_metric_type :: string
  analytics_metric_value :: int
  analytics_date :: int
  analytics_created_at :: time

record conversation_row =
  conversation_account_id :: int
  conversation_message :: string
  conversation_created_at :: time

record notification_row =
  n_id :: int
  n_user_id :: int
  n_type :: NotificationType
  n_title :: string
  n_message :: string
  n_data :: string
  n_is_read :: bool
  n_created_at :: time

record rule_row =
  rule_user_id :: int
  rule_type :: NotificationType
  rule_enabled :: "bool option"

text \<open>
  The relational store, the key-value store and the console. \<open>redis_faults\<close> and
  \<open>db_faults\<close> say what the coming round trips do: each operation takes the head of
  its list, \<open>Some m\<close> makes it raise \<open>Error m\<close>, and an empty list means no fault. A
  string key holds a value and, when set with a time-to-live, the instant it expires;
  a set key holds its members in the order they were added.
\<close>

record world =
  redis_faults :: "string option list"
  db_faults :: "string option list"
  trace :: "store_op list"
  console :: "console_line list"
  redis_strings :: "string \<Rightarrow> (string \<times> time option) option"
  redis_sets :: "string \<Rightarrow> notificationData list"
  scheduled_posts :: "post_row list"
  social_accounts :: "account_row list"
  analytics_data :: "analytics_row list"
  chatbot_conversations :: "conversation_row list"
  notifications :: "notification_row list"
  notification_rules :: "rule_row list"
  notifications_id_seq :: int

definition redis_call :: "store_op \<Rightarrow> world \<Rightarrow> js_error option \<times> world" where
  "redis_call op w =
     (let w1 = w\<lparr>trace := trace w @ [op]\<rparr>
      in case redis_faults w of
           [] \<Rightarrow> (None, w1)
         | f # fs \<Rightarrow> (map_option Error f, w1\<lparr>redis_faults := fs\<rparr>))"

definition db_call :: "store_op \<Rightarrow> world \<Rightarrow> js_error option \<times> world" where
  "db_call op w =
     (let w1 = w\<lparr>trace := trace w @ [op]\<rparr>
      in case db_faults w of
           [] \<Rightarrow> (None, w1)
         | f # fs \<Rightarrow> (map_option Error f, w1\<lparr>db_faults := fs\<rparr>))"

definition console_error :: "string \<Rightarrow> js_error \<Rightarrow> world \<Rightarrow> world" where
  "console_error msg e w = w\<lparr>console := console w @ [ConsoleError msg e]\<rparr>"

definition console_log :: "string \<Rightarrow> world \<Rightarrow> world" where
  "console_log msg w = w\<lparr>console := console w @ [ConsoleLog msg]\<rparr>"

subsection \<open>RedisService\<close>

text \<open>A string key is read as absent once its expiry has been reached.\<close>

definition live_value :: "time \<Rightarrow> (string \<times> time option) option \<Rightarrow> string option" where
  "live_value now entry =
     (case entry of
        None \<Rightarrow> None
      | Some (v, None) \<Rightarrow> Some v
      | Some (v, Some t) \<Rightarrow> (if now < t then Some v else None))"

definition RedisService_get :: "time \<Rightarrow> string \<Rightarrow> world \<Rightarrow> (js_error + string option) \<times> world" where
  "RedisService_get now key w =
     (case redis_call (RedisGet key) w of
        (Some e, w1) \<Rightarrow> (Inl e, w1)
      | (None, w1) \<Rightarrow> (Inr (live_value now (redis_strings w1 key)), w1))"

text \<open>
  \<open>set(key, value, expireInSeconds?)\<close>: a truthy number of seconds gives \<open>SETEX\<close>,
  \<open>undefined\<close> or \<open>0\<close> a plain \<open>SET\<close> with no expiry.
\<close>

definition RedisService_set ::
  "time \<Rightarrow> string \<Rightarrow> string \<Rightarrow> nat option \<Rightarrow> world \<Rightarrow> (js_error + unit) \<times> world" where
  "RedisService_set now key v expireInSeconds w =
     (case expireInSeconds of
        Some (Suc n) \<Rightarrow>
          (case redis_call (RedisSetEx key (Suc n) v) w of
             (Some e, w1) \<Rightarrow> (Inl e, w1)
           | (None, w1) \<Rightarrow>
               (Inr (), w1\<lparr>redis_strings := (redis_strings w1)(key \<mapsto> (v, Some (now + 1000 * int (Suc n))))\<rparr>))
      | _ \<Rightarrow>
          (case redis_call (RedisSet key v) w of
             (Some e, w1) \<Rightarrow> (Inl e, w1)
           | (None, w1) \<Rightarrow> (Inr (), w1\<lparr>redis_strings := (redis_strings w1)(key \<mapsto> (v, None))\<rparr>)))"

text \<open>
  \<open>SADD\<close> adds a member the set does not hold; \<open>SREM\<close> removes it. \<open>SMEMBERS\<close> returns
  every member, in an order the server chooses: \<open>members_order\<close> is that choice, a
  parameter of the model.
\<close>

definition RedisService_addToSet :: "string \<Rightarrow> notificationData \<Rightarrow> world \<Rightarrow> (js_error + unit) \<times> world" where
  "RedisService_addToSet key v w =
     (case redis_call (RedisSAdd key v) w of
        (Some e, w1) \<Rightarrow> (Inl e, w1)
      | (None, w1) \<Rightarrow>
          (Inr (), if v \<in> set (redis_sets w1 key) then w1
                   else w1\<lparr>redis_sets := (redis_sets w1)(key := redis_sets w1 key @ [v])\<rparr>))"

definition RedisService_getSet ::
  "(notificationData list \<Rightarrow> notificationData list) \<Rightarrow> string \<Rightarrow> world
     \<Rightarrow> (js_error + notificationData list) \<times> world" where
  "RedisService_getSet members_order key w =
     (case redis_call (RedisSMembers key) w of
        (Some e, w1) \<Rightarrow> (Inl e, w1)
      | (None, w1) \<Rightarrow> (Inr (members_order (redis_sets w1 key)), w1))"

definition RedisService_removeFromSet :: "string \<Rightarrow> notificationData \<Rightarrow> world \<Rightarrow> (js_error + unit) \<times> world" where
  "RedisService_removeFromSet key v w =
     (case redis_call (RedisSRem key v) w of
        (Some e, w1) \<Rightarrow> (Inl e, w1)
      | (None, w1) \<Rightarrow> (Inr (), w1\<lparr>redis_sets := (redis_sets w1)(key := removeAll v (redis_sets w1 key))\<rparr>))"

section \<open>The rate limiter (createRateLimit)\<close>

record RateLimitOptions =
  windowMs :: nat
  maxRequests :: int
  message :: string
  skipSuccessfulRequests :: bool
  skipFailedRequests :: bool

record request =
  req_ip :: "string option"
  req_remoteAddress :: "string option"
  req_user_id :: "int option"
  req_route_path :: "string option"
  req_path :: string

text \<open>\<open>a || b\<close> on an optional string: \<open>undefined\<close> and the empty string are falsy.\<close>

definition or_else :: "string option \<Rightarrow> string \<Rightarrow> string" where
  "or_else a b = (case a of None \<Rightarrow> b | Some s \<Rightarrow> (if s = [] then b else s))"

definition generateKey :: "request \<Rightarrow> string" where
  "generateKey req =
     (let ip = or_else (req_ip req) (or_else (req_remoteAddress req) ''unknown'');
          userId = (case req_user_id req of
                      None \<Rightarrow> ''anonymous''
                    | Some i \<Rightarrow> (if i = 0 then ''anonymous'' else int_toString i));
          route = or_else (req_route_path req) (req_path req)
      in ip @ '':'' @ userId @ '':'' @ route)"

definition requestsKey :: "request \<Rightarrow> string" where
  "requestsKey req = ''rate_limit:'' @ generateKey req"

text \<open>\<open>Math.ceil(windowMs / 1000)\<close>\<close>

definition ceil_seconds :: "nat \<Rightarrow> nat" where
  "ceil_seconds ms = (ms + 999) div 1000"

record rate_headers =
  x_ratelimit_limit :: string
  x_ratelimit_remaining :: string
  x_ratelimit_reset :: time

text \<open>
  What the middleware does with a request: \<open>Passed\<close> sets the headers, wraps
  \<open>res.send\<close> around the new count and calls \<open>next()\<close>; \<open>FailedOpen\<close> is the \<open>next()\<close> of
  the catch block; \<open>Limited\<close> is the 429 response with its message and \<open>retryAfter\<close>.
\<close>

datatype outcome =
    Passed rate_headers jsnum
  | FailedOpen
  | Limited rate_headers string nat

fun allowed :: "outcome \<Rightarrow> bool" where
  "allowed (Passed _ _) = True"
| "allowed FailedOpen = True"
| "allowed (Limited _ _ _) = False"

text \<open>\<open>requests ? parseInt(requests) : 0\<close>; \<open>null\<close> and the empty string are falsy.\<close>

definition currentRequests_of :: "string option \<Rightarrow> jsnum" where
  "currentRequests_of requests =
     (case requests of
        None \<Rightarrow> Num 0
      | Some s \<Rightarrow> (if s = [] then Num 0 else parseInt s))"

text \<open>The first round trip: \<open>requests = await RedisService.get(requestsKey)\<close>, and the count.\<close>

definition rl_read :: "string \<Rightarrow> time \<Rightarrow> world \<Rightarrow> (js_error + jsnum) \<times> world" where
  "rl_read key now w =
     (case RedisService_get now key w of
        (Inl e, w1) \<Rightarrow> (Inl e, w1)
      | (Inr requests, w1) \<Rightarrow> (Inr (currentRequests_of requests), w1))"

text \<open>The count a read at \<open>now\<close> finds under a key: what \<open>rl_read\<close> returns when the store answers.\<close>

definition stored_count :: "time \<Rightarrow> string \<Rightarrow> world \<Rightarrow> jsnum" where
  "stored_count now key w = currentRequests_of (live_value now (redis_strings w key))"

text \<open>
  The comparison and the second round trip, which resumes after the first \<open>await\<close>:
  \<open>now\<close> is the \<open>Date.now()\<close> the handler took when it started, \<open>t_set\<close> the instant
  its \<open>SETEX\<close> reaches the store.
\<close>

definition rl_decide ::
  "RateLimitOptions \<Rightarrow> string \<Rightarrow> time \<Rightarrow> time \<Rightarrow> jsnum \<Rightarrow> world \<Rightarrow> outcome \<times> world" where
  "rl_decide opts key now t_set currentRequests w =
     (if js_ge currentRequests (Num (maxRequests opts))
      then (Limited \<lparr>x_ratelimit_limit = int_toString (maxRequests opts),
                     x_ratelimit_remaining = ''0'',
                     x_ratelimit_reset = now + int (windowMs opts)\<rparr>
                    (message opts) (ceil_seconds (windowMs opts)), w)
      else
        (let newCount = js_add currentRequests (Num 1)
         in case RedisService_set t_set key (js_toString newCount)
                   (Some (ceil_seconds (windowMs opts))) w of
              (Inl e, w1) \<Rightarrow> (FailedOpen, console_error ''Rate limiting error:'' e w1)
            | (Inr _, w1) \<Rightarrow>
                (Passed \<lparr>x_ratelimit_limit = int_toString (maxRequests opts),
                         x_ratelimit_remaining = js_toString (js_sub (Num (maxRequests opts)) newCount),
                         x_ratelimit_reset = now + int (windowMs opts)\<rparr>
                        newCount, w1)))"

text \<open>
  What a handler does when its read has been answered: the catch block for a read that
  raised, the comparison and the write otherwise.
\<close>

definition rl_resume ::
  "RateLimitOptions \<Rightarrow> string \<Rightarrow> time \<Rightarrow> time \<Rightarrow> js_error + jsnum \<Rightarrow> world \<Rightarrow> outcome \<times> world" where
  "rl_resume opts key now t_set r w =
     (case r of
        Inl e \<Rightarrow> (FailedOpen, console_error ''Rate limiting error:'' e w)
      | Inr currentRequests \<Rightarrow> rl_decide opts key now t_set currentRequests w)"

text \<open>The middleware, run to its end with no other caller in between.\<close>

definition createRateLimit :: "RateLimitOptions \<Rightarrow> request \<Rightarrow> time \<Rightarrow> world \<Rightarrow> outcome \<times> world" where
  "createRateLimit opts req now w =
     (case rl_read (requestsKey req) now w of
        (r, w1) \<Rightarrow> rl_resume opts (requestsKey req) now now r w1)"

text \<open>
  Two callers on one key whose handlers interleave at the \<open>await\<close> of the read: both
  reads are answered before either handler resumes.
\<close>

definition interleaved_pair ::
  "RateLimitOptions \<Rightarrow> request \<Rightarrow> time \<Rightarrow> world \<Rightarrow> (outcome \<times> outcome) \<times> world" where
  "interleaved_pair opts req now w =
     (case rl_read (requestsKey req) now w of
        (ra, w1) \<Rightarrow>
          (case rl_read (requestsKey req) now w1 of
             (rb, w2) \<Rightarrow>
               (case rl_resume opts (requestsKey req) now now ra w2 of
                  (oa, w3) \<Rightarrow>
                    (case rl_resume opts (requestsKey req) now now rb w3 of
                       (ob, w4) \<Rightarrow> ((oa, ob), w4)))))"

text \<open>
  The wrapped \<open>res.send\<close>: when the response is one the options ask not to count, the
  counter is written back as \<open>newCount - 1\<close>. The promise is not awaited, so a rejection
  reaches nobody.
\<close>

definition send_hook ::
  "RateLimitOptions \<Rightarrow> string \<Rightarrow> jsnum \<Rightarrow> time \<Rightarrow> nat \<Rightarrow> world \<Rightarrow> world" where
  "send_hook opts key newCount t statusCode w =
     (let shouldSkip = (skipSuccessfulRequests opts \<and> statusCode < 400)
                       \<or> (skipFailedRequests opts \<and> 400 \<le> statusCode)
      in if shouldSkip
         then snd (RedisService_set t key (js_toString (js_sub newCount (Num 1)))
                     (Some (ceil_seconds (windowMs opts))) w)
         else w)"

text \<open>
  One request from the middleware to its response: a request that passes is answered
  by the rest of the chain with \<open>statusCode\<close>, through the wrapped \<open>res.send\<close>.
\<close>

definition serve ::
  "RateLimitOptions \<Rightarrow> request \<Rightarrow> time \<Rightarrow> nat \<Rightarrow> world \<Rightarrow> outcome \<times> world" where
  "serve opts req now statusCode w =
     (case createRateLimit opts req now w of
        (Passed h newCount, w1) \<Rightarrow>
          (Passed h newCount, send_hook opts (requestsKey req) newCount now statusCode w1)
      | (out, w1) \<Rightarrow> (out, w1))"

text \<open>Sequential requests on one key, one after the other, at the given instants.\<close>

fun serve_all ::
  "RateLimitOptions \<Rightarrow> request \<Rightarrow> (time \<times> nat) list \<Rightarrow> world \<Rightarrow> outcome list \<times> world" where
  "serve_all opts req [] w = ([], w)"
| "serve_all opts req ((t, statusCode) # rest) w =
     (case serve opts req t statusCode w of
        (out, w1) \<Rightarrow> (case serve_all opts req rest w1 of (outs, w2) \<Rightarrow> (out # outs, w2)))"

text \<open>The expiry instant the store holds for a string key, if it holds one.\<close>

definition expiry_of :: "string \<Rightarrow> world \<Rightarrow> time option" where
  "expiry_of key w = (case redis_strings w key of None \<Rightarrow> None | Some (v, ex) \<Rightarrow> ex)"

text \<open>An empty deployment: no rows, no keys, no faults to come.\<close>

definition world0 :: world where
  "world0 = \<lparr>redis_faults = [], db_faults = [], trace = [], console = [],
             redis_strings = (\<lambda>_. None), redis_sets = (\<lambda>_. []),
             scheduled_posts = [], social_accounts = [], analytics_data = [],
             chatbot_conversations = [], notifications = [], notification_rules = [],
             notifications_id_seq = 0\<rparr>"

definition req0 :: request where
  "req0 = \<lparr>req_ip = Some ''10.0.0.1'', req_remoteAddress = None, req_user_id = Some 7,
           req_route_path = Some ''/login'', req_path = ''/auth/login''\<rparr>"

definition opts_60_1 :: RateLimitOptions where
  "opts_60_1 = \<lparr>windowMs = 60000, maxRequests = 1,
                message = ''Too many requests, please try again later.'',
                skipSuccessfulRequests = False, skipFailedRequests = False\<rparr>"

definition opts_60_3 :: RateLimitOptions where
  "opts_60_3 = \<lparr>windowMs = 60000, maxRequests = 3,
                message = ''Too many requests, please try again later.'',
                skipSuccessfulRequests = False, skipFailedRequests = False\<rparr>"

section \<open>NotificationService.createNotification\<close>

record Notification =
  arg_userId :: int
  arg_type :: NotificationType
  arg_title :: string
  arg_message :: string
  arg_data :: "string option"
  arg_isRead :: bool

text \<open>\<open>SELECT enabled FROM notification_rules WHERE user_id = $1 AND type = $2\<close>\<close>

definition rule_rows :: "int \<Rightarrow> NotificationType \<Rightarrow> world \<Rightarrow> bool option list" where
  "rule_rows uid ty w =
     map rule_enabled
       (filter (\<lambda>r. rule_user_id r = uid \<and> rule_type r = ty) (notification_rules w))"

definition select_rule_enabled ::
  "int \<Rightarrow> NotificationType \<Rightarrow> world \<Rightarrow> (js_error + bool option list) \<times> world" where
  "select_rule_enabled uid ty w =
     (case db_call (DbSelectRule uid ty) w of
        (Some e, w1) \<Rightarrow> (Inl e, w1)
      | (None, w1) \<Rightarrow> (Inr (rule_rows uid ty w1), w1))"

text \<open>\<open>ruleResult.rows.length === 0 || ruleResult.rows[0].enabled\<close>; a null flag is falsy.\<close>

definition isEnabled :: "bool option list \<Rightarrow> bool" where
  "isEnabled rows = (case rows of [] \<Rightarrow> True | e # _ \<Rightarrow> e = Some True)"

text \<open>
  \<open>INSERT INTO notifications (user_id, type, title, message, data)\<close>: the id comes from
  the sequence, \<open>is_read\<close> and \<open>created_at\<close> from the column defaults, and the payload is
  \<open>JSON.stringify(notification.data || {})\<close>.
\<close>

definition durable_row :: "time \<Rightarrow> Notification \<Rightarrow> world \<Rightarrow> notification_row" where
  "durable_row now n w =
     \<lparr>n_id = notifications_id_seq w + 1, n_user_id = arg_userId n,
      n_type = arg_type n, n_title = arg_title n, n_message = arg_message n,
      n_data = (case arg_data n of None \<Rightarrow> ''{}'' | Some j \<Rightarrow> j),
      n_is_read = False, n_created_at = now\<rparr>"

definition insert_notification :: "time \<Rightarrow> Notification \<Rightarrow> world \<Rightarrow> (js_error + unit) \<times> world" where
  "insert_notification now n w =
     (case db_call (DbInsertNotification (arg_userId n) (arg_type n)) w of
        (Some e, w1) \<Rightarrow> (Inl e, w1)
      | (None, w1) \<Rightarrow>
          (Inr (), w1\<lparr>notifications := notifications w1 @ [durable_row now n w1],
                       notifications_id_seq := notifications_id_seq w1 + 1\<rparr>))"

definition redisKey :: "int \<Rightarrow> string" where
  "redisKey uid = ''notifications:'' @ int_toString uid"

definition notificationData_of :: "time \<Rightarrow> Notification \<Rightarrow> notificationData" where
  "notificationData_of now n =
     \<lparr>nd_type = arg_type n, nd_title = arg_title n, nd_message = arg_message n,
      nd_data = arg_data n, nd_timestamp = now\<rparr>"

text \<open>\<open>for (const oldNotification of oldestNotifications) await RedisService.removeFromSet(...)\<close>\<close>

fun remove_each :: "string \<Rightarrow> notificationData list \<Rightarrow> world \<Rightarrow> (js_error + unit) \<times> world" where
  "remove_each key [] w = (Inr (), w)"
| "remove_each key (x # xs) w =
     (case RedisService_removeFromSet key x w of
        (Inl e, w1) \<Rightarrow> (Inl e, w1)
      | (Inr _, w1) \<Rightarrow> remove_each key xs w1)"

text \<open>
  "Keep only last 50 notifications in Redis": the members are read back and the
  first \<open>length - 50\<close> of the returned array are removed.
\<close>

definition keep_last_50 ::
  "(notificationData list \<Rightarrow> notificationData list) \<Rightarrow> string \<Rightarrow> world \<Rightarrow> (js_error + unit) \<times> world" where
  "keep_last_50 members_order key w =
     (case RedisService_getSet members_order key w of
        (Inl e, w1) \<Rightarrow> (Inl e, w1)
      | (Inr ns, w1) \<Rightarrow>
          (if 50 < length ns then remove_each key (take (length ns - 50) ns) w1
           else (Inr (), w1)))"

text \<open>The body of the \<open>try\<close> block; \<open>Inl\<close> is what it throws.\<close>

definition createNotification_try ::
  "(notificationData list \<Rightarrow> notificationData list) \<Rightarrow> time \<Rightarrow> Notification \<Rightarrow> world
     \<Rightarrow> (js_error + unit) \<times> world" where
  "createNotification_try members_order now n w =
     (case select_rule_enabled (arg_userId n) (arg_type n) w of
        (Inl e, w1) \<Rightarrow> (Inl e, w1)
      | (Inr rows, w1) \<Rightarrow>
          (if \<not> isEnabled rows then (Inr (), w1)
           else
             (case insert_notification now n w1 of
                (Inl e, w2) \<Rightarrow> (Inl e, w2)
              | (Inr _, w2) \<Rightarrow>
                  (case RedisService_addToSet (redisKey (arg_userId n)) (notificationData_of now n) w2 of
                     (Inl e, w3) \<Rightarrow> (Inl e, w3)
                   | (Inr _, w3) \<Rightarrow>
                       (case keep_last_50 members_order (redisKey (arg_userId n)) w3 of
                          (Inl e, w4) \<Rightarrow> (Inl e, w4)
                        | (Inr _, w4) \<Rightarrow>
                            (Inr (), console_log (''Notification created for user ''
                                                   @ int_toString (arg_userId n) @ '': '' @ arg_title n) w4))))))"

text \<open>
  The whole call: the \<open>catch\<close> logs what the body threw and the promise resolves. The
  first component is what the caller gets: \<open>Inr ()\<close> for a resolved promise, \<open>Inl e\<close> for
  one rejected with \<open>e\<close>.
\<close>

definition createNotification ::
  "(notificationData list \<Rightarrow> notificationData list) \<Rightarrow> time \<Rightarrow> Notification \<Rightarrow> world
     \<Rightarrow> (js_error + unit) \<times> world" where
  "createNotification members_order now n w =
     (case createNotification_try members_order now n w of
        (Inl e, w1) \<Rightarrow> (Inr (), console_error ''Error creating notification:'' e w1)
      | (Inr _, w1) \<Rightarrow> (Inr (), w1))"

text \<open>
  A user whose real-time set is full: fifty notifications, created at the instants 1 to
  50, each with its durable row.
\<close>

definition note7 :: Notification where
  "note7 = \<lparr>arg_userId = 7, arg_type = post_published, arg_title = ''Post published'',
            arg_message = ''Your post is live'', arg_data = None, arg_isRead = False\<rparr>"

definition cache50 :: "notificationData list" where
  "cache50 = map (\<lambda>i. notificationData_of (int i) note7) [1..<51]"

definition world50 :: world where
  "world50 = world0\<lparr>redis_sets := (\<lambda>_. [])(redisKey 7 := cache50),
                    notifications := map (\<lambda>i. (durable_row (int i) note7 world0)\<lparr>n_id := int i\<rparr>) [1..<51],
                    notifications_id_seq := 50\<rparr>"

text \<open>
  The 51st notification of that user as the two stores should hold it, rules that
  disable other users and other types only, and rules of which the one for user 7 and
  \<open>post_published\<close> is disabled.
\<close>

definition row51 :: notification_row where
  "row51 = \<lparr>n_id = 51, n_user_id = 7, n_type = post_published, n_title = ''Post published'',
            n_message = ''Your post is live'', n_data = ''{}'', n_is_read = False,
            n_created_at = 51\<rparr>"




section \<open>SocialMediaService.publishPost\<close>

definition lower_char :: "char \<Rightarrow> char" where
  "lower_char c =
     (if (65::nat) \<le> of_char c \<and> of_char c \<le> (90::nat) then char_of (of_char c + (32::nat)) else c)"

definition toLowerCase :: "string \<Rightarrow> string" where
  "toLowerCase s = map lower_char s"

text \<open>A row of the dispatch query: the post joined with its account.\<close>

type_synonym due_row = "post_row \<times> account_row"

text \<open>
  The platforms are reached over HTTP; \<open>platform_call\<close> says what the request for a row
  does, \<open>None\<close> for a response and \<open>Some m\<close> for a request that throws with text \<open>m\<close>.
  Each adapter logs and rethrows; an Instagram post with no media sends nothing.
\<close>

definition publish_to ::
  "string \<Rightarrow> (due_row \<Rightarrow> string option) \<Rightarrow> due_row \<Rightarrow> world \<Rightarrow> (js_error + unit) \<times> world" where
  "publish_to name platform_call row w =
     (case platform_call row of
        None \<Rightarrow> (Inr (), console_log (name @ '' post published:'') w)
      | Some m \<Rightarrow> (Inl (Error m), console_error (name @ '' publish error:'') (Error m) w))"

definition publishPost ::
  "(due_row \<Rightarrow> string option) \<Rightarrow> due_row \<Rightarrow> world \<Rightarrow> (js_error + unit) \<times> world" where
  "publishPost platform_call row w =
     (let platform = toLowerCase (account_platform (snd row))
      in if platform = ''twitter'' then publish_to ''Twitter'' platform_call row w
         else if platform = ''facebook'' then publish_to ''Facebook'' platform_call row w
         else if platform = ''instagram'' then
           (if post_media_urls (fst row) \<noteq> [] then publish_to ''Instagram'' platform_call row w
            else (Inr (), w))
         else if platform = ''linkedin'' then publish_to ''LinkedIn'' platform_call row w
         else (Inl (Error (''Unsupported platform: '' @ account_platform (snd row))), w))"

section \<open>SchedulerService\<close>

text \<open>
  The dispatch query: pending posts that are due, joined with their account, oldest
  first, at most ten. Rows with the same scheduled time keep their table order.
\<close>

definition due_rows :: "time \<Rightarrow> world \<Rightarrow> due_row list" where
  "due_rows now w =
     take 10 (sort_key (\<lambda>row. post_scheduled_time (fst row))
       (concat (map (\<lambda>p. map (\<lambda>a. (p, a))
                              (filter (\<lambda>a. post_account_id p = account_id a) (social_accounts w)))
                    (filter (\<lambda>p. post_status p = pending \<and> post_scheduled_time p \<le> now)
                            (scheduled_posts w)))))"

definition select_due_posts :: "time \<Rightarrow> world \<Rightarrow> (js_error + due_row list) \<times> world" where
  "select_due_posts now w =
     (case db_call DbSelectDuePosts w of
        (Some e, w1) \<Rightarrow> (Inl e, w1)
      | (None, w1) \<Rightarrow> (Inr (due_rows now w1), w1))"

text \<open>\<open>UPDATE scheduled_posts SET status = 'published', posted_at = NOW() WHERE id = $2\<close>\<close>

definition mark_published :: "time \<Rightarrow> int \<Rightarrow> world \<Rightarrow> (js_error + unit) \<times> world" where
  "mark_published now pid w =
     (case db_call (DbMarkPublished pid) w of
        (Some e, w1) \<Rightarrow> (Inl e, w1)
      | (None, w1) \<Rightarrow>
          (Inr (), w1\<lparr>scheduled_posts :=
                        map (\<lambda>p. if post_id p = pid
                                  then p\<lparr>post_status := published, post_posted_at := Some now\<rparr>
                                  else p) (scheduled_posts w1)\<rparr>))"

text \<open>\<open>UPDATE scheduled_posts SET status = 'failed' WHERE id = $2\<close>\<close>

definition mark_failed :: "int \<Rightarrow> world \<Rightarrow> (js_error + unit) \<times> world" where
  "mark_failed pid w =
     (case db_call (DbMarkFailed pid) w of
        (Some e, w1) \<Rightarrow> (Inl e, w1)
      | (None, w1) \<Rightarrow>
          (Inr (), w1\<lparr>scheduled_posts :=
                        map (\<lambda>p. if post_id p = pid then p\<lparr>post_status := failed\<rparr> else p)
                            (scheduled_posts w1)\<rparr>))"

text \<open>The inner \<open>try\<close> block of the loop: publish, then record the success.\<close>

definition publish_and_mark ::
  "(due_row \<Rightarrow> string option) \<Rightarrow> time \<Rightarrow> due_row \<Rightarrow> world \<Rightarrow> (js_error + unit) \<times> world" where
  "publish_and_mark platform_call now row w =
     (case publishPost platform_call row w of
        (Inl e, w1) \<Rightarrow> (Inl e, w1)
      | (Inr _, w1) \<Rightarrow>
          (case mark_published now (post_id (fst row)) w1 of
             (Inl e, w2) \<Rightarrow> (Inl e, w2)
           | (Inr _, w2) \<Rightarrow>
               (Inr (), console_log (''Published scheduled post '' @ int_toString (post_id (fst row))) w2)))"

text \<open>
  The loop over the selected rows. What the inner \<open>catch\<close> throws (its own update
  failing) leaves the loop.
\<close>

fun process_rows ::
  "(due_row \<Rightarrow> string option) \<Rightarrow> time \<Rightarrow> due_row list \<Rightarrow> world \<Rightarrow> (js_error + unit) \<times> world" where
  "process_rows platform_call now [] w = (Inr (), w)"
| "process_rows platform_call now (row # rest) w =
     (case publish_and_mark platform_call now row w of
        (Inr _, w1) \<Rightarrow> process_rows platform_call now rest w1
      | (Inl e, w1) \<Rightarrow>
          (case mark_failed (post_id (fst row))
                  (console_error (''Failed to publish post '' @ int_toString (post_id (fst row)) @ '':'') e w1) of
             (Inl e2, w2) \<Rightarrow> (Inl e2, w2)
           | (Inr _, w2) \<Rightarrow> process_rows platform_call now rest w2))"

text \<open>
  What an invocation does once its query has been answered: the outer catch for a query
  that raised, the loop otherwise.
\<close>

definition dispatch_resume ::
  "(due_row \<Rightarrow> string option) \<Rightarrow> time \<Rightarrow> js_error + due_row list \<Rightarrow> world
     \<Rightarrow> (js_error + unit) \<times> world" where
  "dispatch_resume platform_call now r w =
     (case r of
        Inl e \<Rightarrow> (Inr (), console_error ''Error processing scheduled posts:'' e w)
      | Inr rows \<Rightarrow>
          (case process_rows platform_call now rows w of
             (Inl e, w2) \<Rightarrow> (Inr (), console_error ''Error processing scheduled posts:'' e w2)
           | (Inr _, w2) \<Rightarrow> (Inr (), w2)))"

definition processScheduledPosts ::
  "(due_row \<Rightarrow> string option) \<Rightarrow> time \<Rightarrow> world \<Rightarrow> (js_error + unit) \<times> world" where
  "processScheduledPosts platform_call now w =
     (case select_due_posts now w of
        (r, w1) \<Rightarrow> dispatch_resume platform_call now r w1)"

text \<open>
  Two invocations of the dispatch action, the second started while the first is
  suspended at the \<open>await\<close> of its query: both queries are answered before either
  invocation runs its loop.
\<close>

definition overlapping_dispatch ::
  "(due_row \<Rightarrow> string option) \<Rightarrow> time \<Rightarrow> world \<Rightarrow> (js_error + unit) \<times> world" where
  "overlapping_dispatch platform_call now w =
     (case select_due_posts now w of
        (ra, w1) \<Rightarrow>
          (case select_due_posts now w1 of
             (rb, w2) \<Rightarrow>
               (case dispatch_resume platform_call now ra w2 of
                  (_, w3) \<Rightarrow> dispatch_resume platform_call now rb w3)))"

text \<open>
  What one pass of the loop body records on a post: \<open>published\<close> with the posting time
  when the publish call returned, \<open>failed\<close> and nothing else when it threw.
\<close>

definition recorded :: "time \<Rightarrow> bool \<Rightarrow> post_row \<Rightarrow> post_row" where
  "recorded now ok p =
     (if ok then p\<lparr>post_status := published, post_posted_at := Some now\<rparr>
      else p\<lparr>post_status := failed\<rparr>)"

text \<open>Whether the publish call for a row returns; the stores have no part in it.\<close>

definition publishes :: "(due_row \<Rightarrow> string option) \<Rightarrow> due_row \<Rightarrow> bool" where
  "publishes platform_call row = (fst (publishPost platform_call row world0) = Inr ())"

text \<open>One pass of the loop body when the update inside the catch block does not throw.\<close>

definition step_world :: "(due_row \<Rightarrow> string option) \<Rightarrow> time \<Rightarrow> due_row \<Rightarrow> world \<Rightarrow> world" where
  "step_world platform_call now row w =
     (case publish_and_mark platform_call now row w of
        (Inr _, w1) \<Rightarrow> w1
      | (Inl e, w1) \<Rightarrow>
          snd (mark_failed (post_id (fst row))
                 (console_error (''Failed to publish post '' @ int_toString (post_id (fst row)) @ '':'') e w1)))"

subsection \<open>cleanupOldData\<close>

definition week_ms :: int where
  "week_ms = 7 * 24 * 60 * 60 * 1000"

text \<open>
  The three deletes. \<open>NOW() - INTERVAL '1 week'\<close> is seven days of milliseconds; a year
  and six months are calendar arithmetic of the database, \<open>minus_months\<close>, taken as a
  parameter.
\<close>

definition delete_analytics :: "time \<Rightarrow> world \<Rightarrow> (js_error + unit) \<times> world" where
  "delete_analytics cutoff w =
     (case db_call DbDeleteAnalytics w of
        (Some e, w1) \<Rightarrow> (Inl e, w1)
      | (None, w1) \<Rightarrow>
          (Inr (), w1\<lparr>analytics_data :=
                        filter (\<lambda>r. \<not> analytics_created_at r < cutoff) (analytics_data w1)\<rparr>))"

definition delete_conversations :: "time \<Rightarrow> world \<Rightarrow> (js_error + unit) \<times> world" where
  "delete_conversations cutoff w =
     (case db_call DbDeleteConversations w of
        (Some e, w1) \<Rightarrow> (Inl e, w1)
      | (None, w1) \<Rightarrow>
          (Inr (), w1\<lparr>chatbot_conversations :=
                        filter (\<lambda>r. \<not> conversation_created_at r < cutoff) (chatbot_conversations w1)\<rparr>))"

definition delete_failed_posts :: "time \<Rightarrow> world \<Rightarrow> (js_error + unit) \<times> world" where
  "delete_failed_posts cutoff w =
     (case db_call DbDeleteFailedPosts w of
        (Some e, w1) \<Rightarrow> (Inl e, w1)
      | (None, w1) \<Rightarrow>
          (Inr (), w1\<lparr>scheduled_posts :=
                        filter (\<lambda>p. \<not> (post_status p = failed \<and> post_created_at p < cutoff))
                               (scheduled_posts w1)\<rparr>))"

definition cleanupOldData_try ::
  "(time \<Rightarrow> nat \<Rightarrow> time) \<Rightarrow> time \<Rightarrow> world \<Rightarrow> (js_error + unit) \<times> world" where
  "cleanupOldData_try minus_months now w =
     (case delete_analytics (minus_months now 12) w of
        (Inl e, w1) \<Rightarrow> (Inl e, w1)
      | (Inr _, w1) \<Rightarrow>
          (case delete_conversations (minus_months now 6) w1 of
             (Inl e, w2) \<Rightarrow> (Inl e, w2)
           | (Inr _, w2) \<Rightarrow>
               (case delete_failed_posts (now - week_ms) w2 of
                  (Inl e, w3) \<Rightarrow> (Inl e, w3)
                | (Inr _, w3) \<Rightarrow> (Inr (), console_log ''Cleanup completed'' w3))))"

definition cleanupOldData ::
  "(time \<Rightarrow> nat \<Rightarrow> time) \<Rightarrow> time \<Rightarrow> world \<Rightarrow> (js_error + unit) \<times> world" where
  "cleanupOldData minus_months now w =
     (case cleanupOldData_try minus_months now w of
        (Inl e, w1) \<Rightarrow> (Inr (), console_error ''Error during cleanup:'' e w1)
      | (Inr _, w1) \<Rightarrow> (Inr (), w1))"

subsection \<open>collectAnalytics\<close>

text \<open>
  \<open>SocialMediaService.getAnalytics\<close>: the metrics of an account on Twitter, Facebook or
  Instagram, none on any other platform. \<open>platform_metrics\<close> says what the request for an
  account does, \<open>Inr\<close> the metrics read from the response and \<open>Inl m\<close> a request that throws
  with text \<open>m\<close>; what is thrown is logged there and no metric is returned.
\<close>

definition getAnalytics ::
  "(account_row \<Rightarrow> string + (string \<times> int) list) \<Rightarrow> account_row \<Rightarrow> world
     \<Rightarrow> (string \<times> int) list \<times> world" where
  "getAnalytics platform_metrics account w =
     (let platform = toLowerCase (account_platform account)
      in if platform = ''twitter'' \<or> platform = ''facebook'' \<or> platform = ''instagram''
         then (case platform_metrics account of
                 Inr metrics \<Rightarrow> (metrics, w)
               | Inl m \<Rightarrow>
                   ([], console_error (''Error getting analytics for '' @ account_platform account @ '':'')
                          (Error m) w))
         else ([], w))"

definition day_ms :: int where
  "day_ms = 24 * 60 * 60 * 1000"

text \<open>
  \<open>INSERT INTO analytics_data ... VALUES ($1, $2, $3, CURRENT_DATE) ON CONFLICT
  (account_id, metric_type, date) DO UPDATE SET metric_value = $3\<close>
\<close>

definition upsert_metric :: "time \<Rightarrow> int \<Rightarrow> string \<times> int \<Rightarrow> world \<Rightarrow> (js_error + unit) \<times> world" where
  "upsert_metric now aid metric w =
     (case db_call (DbUpsertMetric aid (fst metric) (snd metric)) w of
        (Some e, w1) \<Rightarrow> (Inl e, w1)
      | (None, w1) \<Rightarrow>
          (let same = (\<lambda>r. analytics_account_id r = aid \<and> analytics_metric_type r = fst metric
                            \<and> analytics_date r = now div day_ms)
           in (Inr (),
               if \<exists>r\<in>set (analytics_data w1). same r
               then w1\<lparr>analytics_data :=
                         map (\<lambda>r. if same r then r\<lparr>analytics_metric_value := snd metric\<rparr> else r)
                             (analytics_data w1)\<rparr>
               else w1\<lparr>analytics_data := analytics_data w1 @
                         [\<lparr>analytics_account_id = aid, analytics_metric_type = fst metric,
                           analytics_metric_value = snd metric, analytics_date = now div day_ms,
                           analytics_created_at = now\<rparr>]\<rparr>)))"

fun upsert_metrics :: "time \<Rightarrow> int \<Rightarrow> (string \<times> int) list \<Rightarrow> world \<Rightarrow> (js_error + unit) \<times> world" where
  "upsert_metrics now aid [] w = (Inr (), w)"
| "upsert_metrics now aid (metric # rest) w =
     (case upsert_metric now aid metric w of
        (Inl e, w1) \<Rightarrow> (Inl e, w1)
      | (Inr _, w1) \<Rightarrow> upsert_metrics now aid rest w1)"

text \<open>The loop over the active accounts; what one account throws is logged and the loop goes on.\<close>

fun collect_accounts ::
  "(account_row \<Rightarrow> string + (string \<times> int) list) \<Rightarrow> time \<Rightarrow> account_row list \<Rightarrow> world \<Rightarrow> world" where
  "collect_accounts platform_metrics now [] w = w"
| "collect_accounts platform_metrics now (account # rest) w =
     (case getAnalytics platform_metrics account w of
        (analytics, w1) \<Rightarrow>
          (case upsert_metrics now (account_id account) analytics w1 of
             (Inr _, w2) \<Rightarrow>
               collect_accounts platform_metrics now rest
                 (console_log (''Collected analytics for account '' @ int_toString (account_id account)) w2)
           | (Inl e, w2) \<Rightarrow>
               collect_accounts platform_metrics now rest
                 (console_error (''Failed to collect analytics for account ''
                                  @ int_toString (account_id account) @ '':'') e w2)))"

definition collectAnalytics ::
  "(account_row \<Rightarrow> string + (string \<times> int) list) \<Rightarrow> time \<Rightarrow> world \<Rightarrow> (js_error + unit) \<times> world" where
  "collectAnalytics platform_metrics now w =
     (case db_call DbSelectActiveAccounts w of
        (Some e, w1) \<Rightarrow> (Inr (), console_error ''Error collecting analytics:'' e w1)
      | (None, w1) \<Rightarrow>
          (Inr (), collect_accounts platform_metrics now
                     (filter account_is_active (social_accounts w1)) w1))"

subsection \<open>start, stop and the ticks\<close>

text \<open>
  A job as \<open>start\<close> creates it: its cron pattern, the action its callback awaits, and
  whether it has been started. The registry is the \<open>jobs\<close> map, in insertion order.
\<close>

datatype job_action = ProcessScheduledPosts | CollectAnalytics | CleanupOldData

record CronJob =
  cronTime :: string
  onTick :: job_action
  running :: bool

definition jobs_set :: "string \<Rightarrow> CronJob \<Rightarrow> (string \<times> CronJob) list \<Rightarrow> (string \<times> CronJob) list" where
  "jobs_set name job jobs =
     (if name \<in> fst ` set jobs
      then map (\<lambda>entry. if fst entry = name then (name, job) else entry) jobs
      else jobs @ [(name, job)])"

definition start :: "(string \<times> CronJob) list \<Rightarrow> world \<Rightarrow> (string \<times> CronJob) list \<times> world" where
  "start jobs w =
     (let postSchedulerJob = \<lparr>cronTime = ''0 * * * * *'', onTick = ProcessScheduledPosts, running = True\<rparr>;
          analyticsJob = \<lparr>cronTime = ''0 0 * * * *'', onTick = CollectAnalytics, running = True\<rparr>;
          cleanupJob = \<lparr>cronTime = ''0 0 0 * * *'', onTick = CleanupOldData, running = True\<rparr>
      in (jobs_set ''cleanup'' cleanupJob
            (jobs_set ''analytics'' analyticsJob (jobs_set ''postScheduler'' postSchedulerJob jobs)),
          console_log ''Scheduler service started'' w))"

definition stop :: "(string \<times> CronJob) list \<Rightarrow> world \<Rightarrow> (string \<times> CronJob) list \<times> world" where
  "stop jobs w =
     ([], w\<lparr>console := console w @ map (\<lambda>entry. ConsoleLog (''Stopped job: '' @ fst entry)) jobs\<rparr>)"

text \<open>What the actions reach outside the stores: the platforms and the database's calendar.\<close>

record collaborators =
  env_platform_call :: "due_row \<Rightarrow> string option"
  env_platform_metrics :: "account_row \<Rightarrow> string + (string \<times> int) list"
  env_minus_months :: "time \<Rightarrow> nat \<Rightarrow> time"

text \<open>The callback of a job, \<open>async () => { await this.action(); }\<close>, run to its end.\<close>

fun run_action :: "collaborators \<Rightarrow> job_action \<Rightarrow> time \<Rightarrow> world \<Rightarrow> (js_error + unit) \<times> world" where
  "run_action env ProcessScheduledPosts now w = processScheduledPosts (env_platform_call env) now w"
| "run_action env CollectAnalytics now w = collectAnalytics (env_platform_metrics env) now w"
| "run_action env CleanupOldData now w = cleanupOldData (env_minus_months env) now w"

text \<open>
  A tick of the job registered under a name: the callback of a started job runs;
  nothing else is consulted.
\<close>

definition tick ::
  "collaborators \<Rightarrow> (string \<times> CronJob) list \<Rightarrow> string \<Rightarrow> time \<Rightarrow> world \<Rightarrow> (js_error + unit) \<times> world" where
  "tick env jobs name now w =
     (case map_of jobs name of
        None \<Rightarrow> (Inr (), w)
      | Some job \<Rightarrow> (if running job then run_action env (onTick job) now w else (Inr (), w)))"

text \<open>The first store operation of each action.\<close>

fun first_query :: "job_action \<Rightarrow> store_op" where
  "first_query ProcessScheduledPosts = DbSelectDuePosts"
| "first_query CollectAnalytics = DbSelectActiveAccounts"
| "first_query CleanupOldData = DbDeleteAnalytics"

text \<open>
  A database whose months all have thirty days, and a deployment with one row of each
  kind created at instant 0, the post a failed one.
\<close>

definition months_of_30_days :: "time \<Rightarrow> nat \<Rightarrow> time" where
  "months_of_30_days t k = t - int k * (30 * 24 * 60 * 60 * 1000)"

definition world_stale :: world where
  "world_stale = world0\<lparr>
     analytics_data := [\<lparr>analytics_account_id = 1, analytics_metric_type = ''followers'',
                         analytics_metric_value = 10, analytics_date = 0,
                         analytics_created_at = 0\<rparr>],
     chatbot_conversations := [\<lparr>conversation_account_id = 1, conversation_message = ''hello'',
                                conversation_created_at = 0\<rparr>],
     scheduled_posts := [\<lparr>post_id = 1, post_user_id = 7, post_account_id = 1,
                          post_content = ''old'', post_media_urls = [], post_scheduled_time = 0,
                          post_status = failed, post_error_message = None,
                          post_posted_at = None, post_created_at = 0\<rparr>]\<rparr>"

text \<open>Two years after instant 0.\<close>

definition two_years_on :: time where
  "two_years_on = 2 * 365 * 24 * 60 * 60 * 1000"

text \<open>
  A deployment with one pending post of user 7, due at instant 50 on a Twitter account,
  and a platform that refuses every request.
\<close>

definition account_twitter :: account_row where
  "account_twitter = \<lparr>account_id = 1, account_user_id = 7, account_platform = ''Twitter'',
                        account_access_token = Some ''token'', account_is_active = True\<rparr>"

definition post_due :: post_row where
  "post_due = \<lparr>post_id = 1, post_user_id = 7, post_account_id = 1,
                 post_content = ''hello'', post_media_urls = [], post_scheduled_time = 50,
                 post_status = pending, post_error_message = None,
                 post_posted_at = None, post_created_at = 0\<rparr>"

definition world_due :: world where
  "world_due = world0\<lparr>social_accounts := [account_twitter], scheduled_posts := [post_due]\<rparr>"

definition platform_down :: "due_row \<Rightarrow> string option" where
  "platform_down row = Some ''Request failed with status code 401''"

definition platform_up :: "due_row \<Rightarrow> string option" where
  "platform_up row = None"

text \<open>Collaborators that always answer: the platform accepts every post and reports no metric.\<close>

definition no_metrics :: "account_row \<Rightarrow> string + (string \<times> int) list" where
  "no_metrics account = Inr []"

definition env_up :: collaborators where
  "env_up = \<lparr>env_platform_call = platform_up, env_platform_metrics = no_metrics,
             env_minus_months = months_of_30_days\<rparr>"

section \<open>Decimal renderings are read back\<close>

lemma digit_val_digit_char: "d < 10 \<Longrightarrow> digit_val (digit_char d) = Some d"
proof -
  assume "d < 10"
  then have "d = 0 \<or> d = 1 \<or> d = 2 \<or> d = 3 \<or> d = 4 \<or> d = 5 \<or> d = 6 \<or> d = 7 \<or> d = 8 \<or> d = 9"
    by arith
  then show ?thesis
    by (auto simp add: digit_char_def digit_val_def)
qed

lemma digits_prefix_snoc:
  "\<forall>c\<in>set xs. digit_val c \<noteq> None \<Longrightarrow> digit_val c = Some d \<Longrightarrow>
   digits_prefix (xs @ [c]) acc
     = Some ((case digits_prefix xs acc of None \<Rightarrow> 0 | Some a \<Rightarrow> 10 * a) + d)"
  by (induction xs arbitrary: acc) (auto split: option.splits)

lemma nat_digits_all_digits: "\<forall>c\<in>set (nat_digits n). digit_val c \<noteq> None"
proof (induction n rule: nat_digits.induct)
  case (1 n)
  show ?case
  proof (cases "n < 10")
    case True
    then show ?thesis
      using digit_val_digit_char [of n] by (subst nat_digits.simps) simp
  next
    case False
    have "n mod 10 < 10" by simp
    then have "digit_val (digit_char (n mod 10)) \<noteq> None"
      using digit_val_digit_char [of "n mod 10"] by simp
    with False 1 show ?thesis
      by (subst nat_digits.simps) simp
  qed
qed

lemma digits_prefix_nat_digits: "digits_prefix (nat_digits n) None = Some n"
proof (induction n rule: nat_digits.induct)
  case (1 n)
  show ?case
  proof (cases "n < 10")
    case True
    then show ?thesis
      using digit_val_digit_char [of n] by (subst nat_digits.simps) simp
  next
    case False
    have d: "digit_val (digit_char (n mod 10)) = Some (n mod 10)"
      by (rule digit_val_digit_char) simp
    have "digits_prefix (nat_digits (n div 10) @ [digit_char (n mod 10)]) None
            = Some (10 * (n div 10) + n mod 10)"
      using digits_prefix_snoc [OF nat_digits_all_digits d, of "n div 10" None] 1 False
      by simp
    with False show ?thesis
      by (subst nat_digits.simps) simp
  qed
qed

lemma nat_digits_Cons: "\<exists>c cs. nat_digits n = c # cs \<and> digit_val c \<noteq> None"
proof -
  have "nat_digits n \<noteq> []"
    by (subst nat_digits.simps) simp
  then obtain c cs where e: "nat_digits n = c # cs"
    by (cases "nat_digits n") auto
  with nat_digits_all_digits [of n] show ?thesis by auto
qed

lemma digit_not_ws: "digit_val c \<noteq> None \<Longrightarrow> \<not> is_ws c \<and> c \<noteq> CHR ''-'' \<and> c \<noteq> CHR ''+''"
  by (auto simp add: is_ws_def digit_val_def Let_def split: if_splits)

lemma parseInt_int_toString: "parseInt (int_toString i) = Num i"
proof (cases "i < 0")
  case True
  have "\<not> is_ws CHR ''-''" by (simp add: is_ws_def)
  with True show ?thesis
    by (simp add: parseInt_def int_toString_def digits_prefix_nat_digits)
next
  case False
  obtain c cs where e: "nat_digits (nat i) = c # cs" and d: "digit_val c \<noteq> None"
    using nat_digits_Cons by blast
  have p: "digits_prefix (c # cs) None = Some (nat i)"
    using digits_prefix_nat_digits [of "nat i"] e by simp
  from digit_not_ws [OF d] False show ?thesis
    using p by (simp add: parseInt_def int_toString_def e del: digits_prefix.simps)
qed

lemma int_toString_nonempty: "int_toString i \<noteq> []"
  using nat_digits_Cons [of "nat i"] nat_digits_Cons [of "nat (- i)"]
  by (auto simp add: int_toString_def)

section \<open>Properties of the rate limiter\<close>

lemma redis_call_ok:
  "redis_faults w = [] \<Longrightarrow> redis_call op w = (None, w\<lparr>trace := trace w @ [op]\<rparr>)"
  by (simp add: redis_call_def)

lemma redis_call_head:
  "redis_faults w = f # fs \<Longrightarrow>
   redis_call op w = (map_option Error f, w\<lparr>trace := trace w @ [op], redis_faults := fs\<rparr>)"
  by (simp add: redis_call_def)

lemma rl_read_fault:
  "redis_faults w = Some m # fs \<Longrightarrow>
   rl_read key now w = (Inl (Error m), w\<lparr>trace := trace w @ [RedisGet key], redis_faults := fs\<rparr>)"
  by (simp add: rl_read_def RedisService_get_def redis_call_head)

lemma rl_read_pass:
  "redis_faults w = None # fs \<Longrightarrow>
   rl_read key now w = (Inr (stored_count now key w), w\<lparr>trace := trace w @ [RedisGet key], redis_faults := fs\<rparr>)"
  by (simp add: rl_read_def RedisService_get_def redis_call_head stored_count_def currentRequests_of_def)

lemma rl_read_ok:
  "redis_faults w = [] \<Longrightarrow>
   rl_read key now w = (Inr (stored_count now key w), w\<lparr>trace := trace w @ [RedisGet key]\<rparr>)"
  by (simp add: rl_read_def RedisService_get_def redis_call_ok stored_count_def currentRequests_of_def)

lemma RedisService_set_fault:
  "redis_faults w = Some m # fs \<Longrightarrow>
   \<exists>w2. RedisService_set t key v ttl w = (Inl (Error m), w2) \<and> console w2 = console w"
  by (auto simp add: RedisService_set_def redis_call_head split: option.splits nat.splits)

text \<open>
  C9. The limiter fails open. When the read of the counter raises, and when the read
  answers with a count below the maximum and the write of the new count raises, the
  fault is logged with \<open>console.error\<close> and the request is let through (\<open>next()\<close> from
  the catch block). A call that is refused issues no second store operation, so these
  are all the store operations of a call.
\<close>

theorem rateLimit_fails_open:
  "(redis_faults w = Some m # fs \<longrightarrow>
      fst (createRateLimit opts req now w) = FailedOpen
      \<and> allowed (fst (createRateLimit opts req now w))
      \<and> console (snd (createRateLimit opts req now w))
          = console w @ [ConsoleError ''Rate limiting error:'' (Error m)])
   \<and> (redis_faults w = None # Some m # fs
        \<and> \<not> js_ge (stored_count now (requestsKey req) w) (Num (maxRequests opts)) \<longrightarrow>
      fst (createRateLimit opts req now w) = FailedOpen
      \<and> allowed (fst (createRateLimit opts req now w))
      \<and> console (snd (createRateLimit opts req now w))
          = console w @ [ConsoleError ''Rate limiting error:'' (Error m)])"
proof (intro conjI impI)
  assume f: "redis_faults w = Some m # fs"
  show "fst (createRateLimit opts req now w) = FailedOpen"
    by (simp add: createRateLimit_def rl_resume_def rl_read_fault [OF f])
  then show "allowed (fst (createRateLimit opts req now w))"
    by simp
  show "console (snd (createRateLimit opts req now w))
          = console w @ [ConsoleError ''Rate limiting error:'' (Error m)]"
    by (simp add: createRateLimit_def rl_resume_def rl_read_fault [OF f] console_error_def)
next
  assume a: "redis_faults w = None # Some m # fs
        \<and> \<not> js_ge (stored_count now (requestsKey req) w) (Num (maxRequests opts))"
  let ?w1 = "w\<lparr>trace := trace w @ [RedisGet (requestsKey req)], redis_faults := Some m # fs\<rparr>"
  let ?v = "js_toString (js_add (stored_count now (requestsKey req) w) (Num 1))"
  have r: "rl_read (requestsKey req) now w = (Inr (stored_count now (requestsKey req) w), ?w1)"
    using a by (simp add: rl_read_pass)
  have s: "redis_faults ?w1 = Some m # fs" by simp
  obtain w2 where w2: "RedisService_set now (requestsKey req) ?v (Some (ceil_seconds (windowMs opts))) ?w1
                         = (Inl (Error m), w2)" and c2: "console w2 = console ?w1"
    using RedisService_set_fault [OF s] by blast
  have out: "createRateLimit opts req now w = (FailedOpen, console_error ''Rate limiting error:'' (Error m) w2)"
    using a by (simp add: createRateLimit_def rl_resume_def r rl_decide_def Let_def w2)
  show "fst (createRateLimit opts req now w) = FailedOpen"
    by (simp add: out)
  then show "allowed (fst (createRateLimit opts req now w))"
    by simp
  show "console (snd (createRateLimit opts req now w))
          = console w @ [ConsoleError ''Rate limiting error:'' (Error m)]"
    by (simp add: out console_error_def c2)
qed

theorem rateLimit_fails_open_witness:
  "fst (createRateLimit opts_60_3 req0 5 (world0\<lparr>redis_faults := [Some ''ECONNREFUSED'']\<rparr>)) = FailedOpen
   \<and> allowed (fst (createRateLimit opts_60_3 req0 5 (world0\<lparr>redis_faults := [Some ''ECONNREFUSED'']\<rparr>)))
   \<and> fst (createRateLimit opts_60_3 req0 5 (world0\<lparr>redis_faults := [None, Some ''ECONNRESET'']\<rparr>)) = FailedOpen"
proof -
  have a: "redis_faults (world0\<lparr>redis_faults := [Some ''ECONNREFUSED'']\<rparr>) = Some ''ECONNREFUSED'' # []"
    by simp
  have b: "redis_faults (world0\<lparr>redis_faults := [None, Some ''ECONNRESET'']\<rparr>) = None # Some ''ECONNRESET'' # []"
    by simp
  have c: "\<not> js_ge (stored_count 5 (requestsKey req0) (world0\<lparr>redis_faults := [None, Some ''ECONNRESET'']\<rparr>))
               (Num (maxRequests opts_60_3))"
    by (simp add: stored_count_def currentRequests_of_def world0_def live_value_def opts_60_3_def)
  from rateLimit_fails_open [of "world0\<lparr>redis_faults := [Some ''ECONNREFUSED'']\<rparr>" "''ECONNREFUSED''" "[]" opts_60_3 req0 5] a
  have 1: "fst (createRateLimit opts_60_3 req0 5 (world0\<lparr>redis_faults := [Some ''ECONNREFUSED'']\<rparr>)) = FailedOpen"
    by blast
  from rateLimit_fails_open [of "world0\<lparr>redis_faults := [None, Some ''ECONNRESET'']\<rparr>" "''ECONNRESET''" "[]" opts_60_3 req0 5] b c
  have 2: "fst (createRateLimit opts_60_3 req0 5 (world0\<lparr>redis_faults := [None, Some ''ECONNRESET'']\<rparr>)) = FailedOpen"
    by blast
  show ?thesis using 1 2 by simp
qed

lemma ceil_seconds_covers: "int ms \<le> 1000 * int (ceil_seconds ms)"
  by (simp add: ceil_seconds_def)

lemma ceil_seconds_pos: "0 < ms \<Longrightarrow> 0 < ceil_seconds ms"
  by (simp add: ceil_seconds_def)

lemma RedisService_set_ok:
  "redis_faults w = [] \<Longrightarrow> 0 < k \<Longrightarrow>
   RedisService_set t key v (Some k) w
     = (Inr (), w\<lparr>trace := trace w @ [RedisSetEx key k v],
                  redis_strings := (redis_strings w)(key \<mapsto> (v, Some (t + 1000 * int k)))\<rparr>)"
  by (cases k) (simp_all add: RedisService_set_def redis_call_ok)

lemma rateLimit_pass:
  assumes "redis_faults w = []"
    and "\<not> js_ge (stored_count now (requestsKey req) w) (Num (maxRequests opts))"
    and "0 < windowMs opts"
  shows "createRateLimit opts req now w =
     (Passed \<lparr>x_ratelimit_limit = int_toString (maxRequests opts),
              x_ratelimit_remaining =
                js_toString (js_sub (Num (maxRequests opts))
                               (js_add (stored_count now (requestsKey req) w) (Num 1))),
              x_ratelimit_reset = now + int (windowMs opts)\<rparr>
             (js_add (stored_count now (requestsKey req) w) (Num 1)),
      w\<lparr>trace := trace w @ [RedisGet (requestsKey req),
             RedisSetEx (requestsKey req) (ceil_seconds (windowMs opts))
               (js_toString (js_add (stored_count now (requestsKey req) w) (Num 1)))],
         redis_strings := (redis_strings w)(requestsKey req \<mapsto>
             (js_toString (js_add (stored_count now (requestsKey req) w) (Num 1)),
              Some (now + 1000 * int (ceil_seconds (windowMs opts)))))\<rparr>)"
  using assms
  by (simp add: createRateLimit_def rl_resume_def rl_read_ok rl_decide_def Let_def RedisService_set_ok
      ceil_seconds_pos)

lemma rateLimit_limited:
  assumes "redis_faults w = []"
    and "js_ge (stored_count now (requestsKey req) w) (Num (maxRequests opts))"
  shows "createRateLimit opts req now w =
     (Limited \<lparr>x_ratelimit_limit = int_toString (maxRequests opts),
               x_ratelimit_remaining = ''0'',
               x_ratelimit_reset = now + int (windowMs opts)\<rparr>
              (message opts) (ceil_seconds (windowMs opts)),
      w\<lparr>trace := trace w @ [RedisGet (requestsKey req)]\<rparr>)"
  using assms
  by (simp add: createRateLimit_def rl_resume_def rl_read_ok rl_decide_def)

lemma send_hook_default:
  "\<not> skipSuccessfulRequests opts \<Longrightarrow> \<not> skipFailedRequests opts \<Longrightarrow>
   send_hook opts key newCount t statusCode w = w"
  by (simp add: send_hook_def)

lemma serve_default:
  "\<not> skipSuccessfulRequests opts \<Longrightarrow> \<not> skipFailedRequests opts \<Longrightarrow>
   serve opts req now statusCode w = createRateLimit opts req now w"
  by (simp add: serve_def send_hook_default split: prod.splits outcome.splits)

lemma stored_count_live:
  "redis_strings w key = Some (int_toString c, Some e) \<Longrightarrow> t < e \<Longrightarrow> stored_count t key w = Num c"
  by (simp add: stored_count_def currentRequests_of_def live_value_def parseInt_int_toString int_toString_nonempty)

lemma stored_count_fresh:
  "live_value t (redis_strings w key) = None \<Longrightarrow> stored_count t key w = Num 0"
  by (simp add: stored_count_def currentRequests_of_def)

lemma stored_count_expired:
  "redis_strings w key = Some (v, Some e) \<Longrightarrow> e \<le> t \<Longrightarrow> stored_count t key w = Num 0"
  by (simp add: stored_count_def currentRequests_of_def live_value_def)

lemma ceil_seconds_60000: "ceil_seconds 60000 = 60"
  by (simp add: ceil_seconds_def)

lemma serve_all_Cons:
  "serve_all opts req ((t, s) # rest) w
     = (fst (serve opts req t s w) # fst (serve_all opts req rest (snd (serve opts req t s w))),
        snd (serve_all opts req rest (snd (serve opts req t s w))))"
  by (simp split: prod.splits)

text \<open>One sequential call on a key that holds the count c (or nothing, when c = 0).\<close>

lemma serve_step:
  assumes nf: "redis_faults w = []"
    and d: "\<not> skipSuccessfulRequests opts" "\<not> skipFailedRequests opts"
    and c: "stored_count t (requestsKey req) w = Num c"
    and n: "0 < windowMs opts"
  shows "redis_faults (snd (serve opts req t s w)) = []"
    and "c < maxRequests opts \<Longrightarrow> allowed (fst (serve opts req t s w))"
    and "c < maxRequests opts \<Longrightarrow>
           redis_strings (snd (serve opts req t s w)) (requestsKey req)
             = Some (int_toString (c + 1), Some (t + 1000 * int (ceil_seconds (windowMs opts))))"
    and "maxRequests opts \<le> c \<Longrightarrow> \<not> allowed (fst (serve opts req t s w))"
    and "maxRequests opts \<le> c \<Longrightarrow>
           redis_strings (snd (serve opts req t s w)) = redis_strings w"
proof -
  show "redis_faults (snd (serve opts req t s w)) = []"
  proof (cases "c < maxRequests opts")
    case True
    then have "\<not> js_ge (stored_count t (requestsKey req) w) (Num (maxRequests opts))"
      by (simp add: c)
    from rateLimit_pass [OF nf this n] show ?thesis
      by (simp add: serve_default d nf)
  next
    case False
    then have "js_ge (stored_count t (requestsKey req) w) (Num (maxRequests opts))"
      by (simp add: c)
    from rateLimit_limited [OF nf this] show ?thesis
      by (simp add: serve_default d nf)
  qed
next
  assume lt: "c < maxRequests opts"
  then have "\<not> js_ge (stored_count t (requestsKey req) w) (Num (maxRequests opts))"
    by (simp add: c)
  note p = rateLimit_pass [OF nf this n]
  show "allowed (fst (serve opts req t s w))"
    by (simp add: serve_default d p)
  show "redis_strings (snd (serve opts req t s w)) (requestsKey req)
             = Some (int_toString (c + 1), Some (t + 1000 * int (ceil_seconds (windowMs opts))))"
    by (simp add: serve_default d p c)
next
  assume ge: "maxRequests opts \<le> c"
  then have "js_ge (stored_count t (requestsKey req) w) (Num (maxRequests opts))"
    by (simp add: c)
  note l = rateLimit_limited [OF nf this]
  show "\<not> allowed (fst (serve opts req t s w))"
    by (simp add: serve_default d l)
  show "redis_strings (snd (serve opts req t s w)) = redis_strings w"
    by (simp add: serve_default d l)
qed

text \<open>
  C7. A fresh key, a window of 60 seconds and a maximum of 3, with the default options:
  four requests in rapid succession (each before the counter written by the one before
  it expires) are let through, let through, let through and refused; a request made
  once the window has elapsed since the counter was last written is let through again.
\<close>

theorem four_calls_then_window:
  assumes nf: "redis_faults w = []"
    and fresh: "live_value t1 (redis_strings w (requestsKey req)) = None"
    and win: "windowMs opts = 60000" and mx: "maxRequests opts = 3"
    and d: "\<not> skipSuccessfulRequests opts" "\<not> skipFailedRequests opts"
    and rapid: "t2 < t1 + 60000" "t3 < t2 + 60000" "t4 < t3 + 60000"
    and elapsed: "t3 + 60000 \<le> t5"
  shows "map allowed (fst (serve_all opts req [(t1, s1), (t2, s2), (t3, s3), (t4, s4), (t5, s5)] w))
           = [True, True, True, False, True]"
proof -
  let ?k = "requestsKey req"
  have n: "0 < windowMs opts"
    by (simp add: win)
  have cs: "ceil_seconds (windowMs opts) = 60"
    by (simp add: win ceil_seconds_60000)
  define w1 where "w1 = snd (serve opts req t1 s1 w)"
  define w2 where "w2 = snd (serve opts req t2 s2 w1)"
  define w3 where "w3 = snd (serve opts req t3 s3 w2)"
  define w4 where "w4 = snd (serve opts req t4 s4 w3)"
  have c0: "stored_count t1 ?k w = Num 0"
    by (rule stored_count_fresh [OF fresh])
  note s1 = serve_step [OF nf d c0 n, of s1, folded w1_def]
  have a1: "allowed (fst (serve opts req t1 s1 w))" using s1(2) mx by simp
  have r1: "redis_strings w1 ?k = Some (int_toString 1, Some (t1 + 60000))" using s1(3) mx cs by simp
  have c1: "stored_count t2 ?k w1 = Num 1"
    using stored_count_live [OF r1] rapid by simp
  note s2 = serve_step [OF s1(1) d c1 n, of s2, folded w2_def]
  have a2: "allowed (fst (serve opts req t2 s2 w1))" using s2(2) mx by simp
  have r2: "redis_strings w2 ?k = Some (int_toString 2, Some (t2 + 60000))" using s2(3) mx cs by simp
  have c2: "stored_count t3 ?k w2 = Num 2"
    using stored_count_live [OF r2] rapid by simp
  note s3 = serve_step [OF s2(1) d c2 n, of s3, folded w3_def]
  have a3: "allowed (fst (serve opts req t3 s3 w2))" using s3(2) mx by simp
  have r3: "redis_strings w3 ?k = Some (int_toString 3, Some (t3 + 60000))" using s3(3) mx cs by simp
  have c3: "stored_count t4 ?k w3 = Num 3"
    using stored_count_live [OF r3] rapid by simp
  note s4 = serve_step [OF s3(1) d c3 n, of s4, folded w4_def]
  have a4: "\<not> allowed (fst (serve opts req t4 s4 w3))" using s4(4) mx by simp
  have r4: "redis_strings w4 ?k = Some (int_toString 3, Some (t3 + 60000))"
    using s4(5) mx r3 by simp
  have c4: "stored_count t5 ?k w4 = Num 0"
    using stored_count_expired [OF r4] elapsed by simp
  note s5 = serve_step [OF s4(1) d c4 n, of s5]
  have a5: "allowed (fst (serve opts req t5 s5 w4))" using s5(2) mx by simp
  show ?thesis
    using a1 a2 a3 a4 a5
    by (simp add: serve_all_Cons w1_def w2_def w3_def w4_def del: serve_all.simps(2))
qed


text \<open>C7, at the instants 0, 1, 2 and 3 ms and then 60002 ms, on an empty store.\<close>

theorem four_calls_then_window_witness:
  "map allowed (fst (serve_all opts_60_3 req0
       [(0, 200), (1, 200), (2, 500), (3, 200), (60002, 200)] world0))
     = [True, True, True, False, True]"
  using four_calls_then_window [of world0 0 req0 opts_60_3 1 2 3 60002 200 200 500 200 200]
  by (simp add: world0_def opts_60_3_def live_value_def)

lemma stored_count_cong:
  "redis_strings w' = redis_strings w \<Longrightarrow> stored_count t key w' = stored_count t key w"
  by (simp add: stored_count_def currentRequests_of_def)

lemma serve_all_bounded_aux:
  assumes d: "\<not> skipSuccessfulRequests opts" "\<not> skipFailedRequests opts"
  shows "redis_faults w = [] \<Longrightarrow>
         (\<forall>t. t0 \<le> t \<and> t < t0 + int (windowMs opts) \<longrightarrow> stored_count t (requestsKey req) w = Num c) \<Longrightarrow>
         c \<le> maxRequests opts \<Longrightarrow>
         (\<forall>call\<in>set calls. t0 \<le> fst call \<and> fst call < t0 + int (windowMs opts)) \<Longrightarrow>
         int (length (filter allowed (fst (serve_all opts req calls w)))) \<le> maxRequests opts - c"
proof (induction calls arbitrary: w c)
  case Nil
  then show ?case by simp
next
  case (Cons call calls)
  obtain t s where call: "call = (t, s)" by (cases call)
  let ?k = "requestsKey req"
  let ?w1 = "snd (serve opts req t s w)"
  have rng: "t0 \<le> t" "t < t0 + int (windowMs opts)"
    using Cons.prems(4) call by auto
  then have n: "0 < windowMs opts" by simp
  have c: "stored_count t ?k w = Num c"
    using Cons.prems(2) rng by simp
  note st = serve_step [OF Cons.prems(1) d c n, of s]
  have rest: "\<forall>call\<in>set calls. t0 \<le> fst call \<and> fst call < t0 + int (windowMs opts)"
    using Cons.prems(4) by simp
  show ?case
  proof (cases "c < maxRequests opts")
    case True
    have r: "redis_strings ?w1 ?k = Some (int_toString (c + 1), Some (t + 1000 * int (ceil_seconds (windowMs opts))))"
      using st(3) True by simp
    have cover: "t0 + int (windowMs opts) \<le> t + 1000 * int (ceil_seconds (windowMs opts))"
      using ceil_seconds_covers [of "windowMs opts"] rng by simp
    have inv: "\<forall>t'. t0 \<le> t' \<and> t' < t0 + int (windowMs opts) \<longrightarrow> stored_count t' ?k ?w1 = Num (c + 1)"
      using stored_count_live [OF r] cover by auto
    have "int (length (filter allowed (fst (serve_all opts req calls ?w1)))) \<le> maxRequests opts - (c + 1)"
      using Cons.IH [OF st(1) inv _ rest] True by simp
    then show ?thesis
      using st(2) True by (simp add: call serve_all_Cons del: serve_all.simps(2))
  next
    case False
    then have ge: "maxRequests opts \<le> c" by simp
    have same: "redis_strings ?w1 = redis_strings w"
      using st(5) ge by simp
    have inv: "\<forall>t'. t0 \<le> t' \<and> t' < t0 + int (windowMs opts) \<longrightarrow> stored_count t' ?k ?w1 = Num c"
      using Cons.prems(2) stored_count_cong [OF same] by simp
    have "int (length (filter allowed (fst (serve_all opts req calls ?w1)))) \<le> maxRequests opts - c"
      using Cons.IH [OF st(1) inv Cons.prems(3) rest] .
    then show ?thesis
      using st(4) ge by (simp add: call serve_all_Cons del: serve_all.simps(2))
  qed
qed

lemma live_value_later:
  "live_value t0 entry = None \<Longrightarrow> t0 \<le> t \<Longrightarrow> live_value t entry = None"
  by (auto simp add: live_value_def split: option.splits if_splits)

text \<open>
  C3, as the code has it. The count is read with one store operation (\<open>GET\<close>) and the new
  count is written with a second one (\<open>SETEX\<close>): an admitted call leaves exactly these two
  operations in the trace. When the calls on a key run one after the other, with the
  default options, on a key that is fresh at \<open>t0\<close> and all within the window that starts
  at \<open>t0\<close>, the number of calls let through never exceeds \<open>maxRequests\<close>.
\<close>

theorem sequential_calls_two_round_trips_bounded:
  assumes nf: "redis_faults w = []"
    and d: "\<not> skipSuccessfulRequests opts" "\<not> skipFailedRequests opts"
  shows "(\<not> js_ge (stored_count now (requestsKey req) w) (Num (maxRequests opts))
            \<and> 0 < windowMs opts \<longrightarrow>
          trace (snd (createRateLimit opts req now w))
            = trace w @ [RedisGet (requestsKey req),
                         RedisSetEx (requestsKey req) (ceil_seconds (windowMs opts))
                           (js_toString (js_add (stored_count now (requestsKey req) w) (Num 1)))])
       \<and> (live_value t0 (redis_strings w (requestsKey req)) = None
            \<and> 0 \<le> maxRequests opts
            \<and> (\<forall>call\<in>set calls. t0 \<le> fst call \<and> fst call < t0 + int (windowMs opts)) \<longrightarrow>
          int (length (filter allowed (fst (serve_all opts req calls w)))) \<le> maxRequests opts)"
proof (intro conjI impI)
  assume a: "\<not> js_ge (stored_count now (requestsKey req) w) (Num (maxRequests opts))
            \<and> 0 < windowMs opts"
  then have n: "0 < windowMs opts" by simp
  from a have b: "\<not> js_ge (stored_count now (requestsKey req) w) (Num (maxRequests opts))"
    by simp
  show "trace (snd (createRateLimit opts req now w))
            = trace w @ [RedisGet (requestsKey req),
                         RedisSetEx (requestsKey req) (ceil_seconds (windowMs opts))
                           (js_toString (js_add (stored_count now (requestsKey req) w) (Num 1)))]"
    by (simp add: rateLimit_pass [OF nf b n])
next
  assume a: "live_value t0 (redis_strings w (requestsKey req)) = None
            \<and> 0 \<le> maxRequests opts
            \<and> (\<forall>call\<in>set calls. t0 \<le> fst call \<and> fst call < t0 + int (windowMs opts))"
  have inv: "\<forall>t. t0 \<le> t \<and> t < t0 + int (windowMs opts) \<longrightarrow> stored_count t (requestsKey req) w = Num 0"
    using a live_value_later stored_count_fresh by blast
  show "int (length (filter allowed (fst (serve_all opts req calls w)))) \<le> maxRequests opts"
    using serve_all_bounded_aux [OF d nf inv, of calls] a by simp
qed

lemma req0_fresh: "stored_count t (requestsKey req0) world0 = Num 0"
  by (simp add: stored_count_def currentRequests_of_def live_value_def world0_def)

text \<open>
  C3 as stated fails: the read and the write are two round trips, and two callers whose
  reads are both answered before either writes are both let through with a maximum
  of 1.
\<close>

theorem interleaved_callers_exceed_limit:
  "maxRequests opts_60_1 = 1
   \<and> allowed (fst (fst (interleaved_pair opts_60_1 req0 0 world0)))
   \<and> allowed (snd (fst (interleaved_pair opts_60_1 req0 0 world0)))"
proof -
  let ?k = "requestsKey req0"
  let ?w2 = "world0\<lparr>trace := [RedisGet ?k, RedisGet ?k]\<rparr>"
  have nf: "redis_faults world0 = []" by (simp add: world0_def)
  have r1: "rl_read ?k 0 world0 = (Inr (Num 0), world0\<lparr>trace := [RedisGet ?k]\<rparr>)"
    by (simp add: rl_read_ok [OF nf] req0_fresh) (simp add: world0_def)
  have r2: "rl_read ?k 0 (world0\<lparr>trace := [RedisGet ?k]\<rparr>) = (Inr (Num 0), ?w2)"
    by (simp add: rl_read_ok nf stored_count_def currentRequests_of_def live_value_def) (simp add: world0_def)
  have n: "ceil_seconds (windowMs opts_60_1) = 60"
    by (simp add: opts_60_1_def ceil_seconds_def)
  have m: "maxRequests opts_60_1 = 1"
    by (simp add: opts_60_1_def)
  have a: "allowed (fst (rl_decide opts_60_1 ?k 0 0 (Num 0) w))" if "redis_faults w = []" for w
    using that by (simp add: rl_decide_def m n RedisService_set_ok Let_def)
  have f: "redis_faults (snd (rl_decide opts_60_1 ?k 0 0 (Num 0) w)) = []" if "redis_faults w = []" for w
    using that by (simp add: rl_decide_def m n RedisService_set_ok Let_def)
  have nf2: "redis_faults ?w2 = []" by (simp add: world0_def)
  have "fst (interleaved_pair opts_60_1 req0 0 world0)
          = (fst (rl_decide opts_60_1 ?k 0 0 (Num 0) ?w2),
             fst (rl_decide opts_60_1 ?k 0 0 (Num 0) (snd (rl_decide opts_60_1 ?k 0 0 (Num 0) ?w2))))"
    by (simp add: interleaved_pair_def r1 r2 rl_resume_def split: prod.splits)
  then show ?thesis
    using a [OF nf2] a [OF f [OF nf2]] m by simp
qed

lemma rateLimit_pass_store:
  assumes "redis_faults w = []"
    and "\<not> js_ge (stored_count now (requestsKey req) w) (Num (maxRequests opts))"
    and "0 < windowMs opts"
  shows "redis_faults (snd (createRateLimit opts req now w)) = []"
    and "redis_strings (snd (createRateLimit opts req now w)) (requestsKey req)
           = Some (js_toString (js_add (stored_count now (requestsKey req) w) (Num 1)),
                   Some (now + 1000 * int (ceil_seconds (windowMs opts))))"
    and "allowed (fst (createRateLimit opts req now w))"
  using assms by (simp_all add: rateLimit_pass)

text \<open>
  C8 as stated fails: the second request, one second after the first and inside its
  window, moves the counter's expiry from 60000 to 61000.
\<close>

theorem second_increment_moves_expiry:
  "expiry_of (requestsKey req0) (snd (createRateLimit opts_60_3 req0 0 world0)) = Some 60000
   \<and> expiry_of (requestsKey req0)
        (snd (createRateLimit opts_60_3 req0 1000 (snd (createRateLimit opts_60_3 req0 0 world0)))) = Some 61000"
proof -
  let ?k = "requestsKey req0"
  let ?w1 = "snd (createRateLimit opts_60_3 req0 0 world0)"
  have nf: "redis_faults world0 = []" by (simp add: world0_def)
  have n: "0 < windowMs opts_60_3"
    by (simp add: opts_60_3_def)
  have cs: "ceil_seconds (windowMs opts_60_3) = 60"
    by (simp add: opts_60_3_def ceil_seconds_def)
  have m: "maxRequests opts_60_3 = 3"
    by (simp add: opts_60_3_def)
  have b0: "\<not> js_ge (stored_count 0 ?k world0) (Num (maxRequests opts_60_3))"
    by (simp add: req0_fresh m)
  note p1 = rateLimit_pass_store [OF nf b0 n]
  have s1: "redis_strings ?w1 ?k = Some (int_toString 1, Some 60000)"
    using p1(2) by (simp add: req0_fresh cs)
  have c1: "stored_count 1000 ?k ?w1 = Num 1"
    by (rule stored_count_live [OF s1]) simp
  have b1: "\<not> js_ge (stored_count 1000 ?k ?w1) (Num (maxRequests opts_60_3))"
    by (simp add: c1 m)
  note p2 = rateLimit_pass_store [OF p1(1) b1 n]
  show ?thesis
    using s1 p2(2) by (simp add: expiry_of_def cs)
qed


lemma RedisService_get_ok:
  "redis_faults w = [] \<Longrightarrow>
   RedisService_get t key w
     = (Inr (live_value t (redis_strings w key)), w\<lparr>trace := trace w @ [RedisGet key]\<rparr>)"
  by (simp add: RedisService_get_def redis_call_ok)

text \<open>
  C8, as the code has it. Every call that is let through writes the counter with a
  fresh time-to-live of \<open>ceil(windowMs / 1000)\<close> seconds, whether the counter is new or
  is being incremented: its expiry is then the instant of that call plus the window. A
  refused call writes nothing. The store enforces the expiry: a read at or after it
  finds no counter.
\<close>

theorem admitted_call_writes_fresh_expiry:
  assumes nf: "redis_faults w = []" and n: "0 < windowMs opts"
  shows "(\<not> js_ge (stored_count now (requestsKey req) w) (Num (maxRequests opts)) \<longrightarrow>
            allowed (fst (createRateLimit opts req now w))
            \<and> expiry_of (requestsKey req) (snd (createRateLimit opts req now w))
                = Some (now + 1000 * int (ceil_seconds (windowMs opts))))
       \<and> (js_ge (stored_count now (requestsKey req) w) (Num (maxRequests opts)) \<longrightarrow>
            \<not> allowed (fst (createRateLimit opts req now w))
            \<and> redis_strings (snd (createRateLimit opts req now w)) = redis_strings w)
       \<and> (\<forall>e t. expiry_of (requestsKey req) w = Some e \<and> e \<le> t \<longrightarrow>
            fst (RedisService_get t (requestsKey req) w) = Inr None)"
proof (intro conjI impI allI)
  assume b: "\<not> js_ge (stored_count now (requestsKey req) w) (Num (maxRequests opts))"
  note p = rateLimit_pass_store [OF nf b n]
  show "allowed (fst (createRateLimit opts req now w))"
    by (rule p(3))
  show "expiry_of (requestsKey req) (snd (createRateLimit opts req now w))
                = Some (now + 1000 * int (ceil_seconds (windowMs opts)))"
    by (simp add: expiry_of_def p(2))
next
  assume b: "js_ge (stored_count now (requestsKey req) w) (Num (maxRequests opts))"
  note l = rateLimit_limited [OF nf b]
  show "\<not> allowed (fst (createRateLimit opts req now w))"
    by (simp add: l)
  show "redis_strings (snd (createRateLimit opts req now w)) = redis_strings w"
    by (simp add: l)
next
  fix e t
  assume "expiry_of (requestsKey req) w = Some e \<and> e \<le> t"
  then show "fst (RedisService_get t (requestsKey req) w) = Inr None"
    by (auto simp add: RedisService_get_ok [OF nf] expiry_of_def live_value_def split: option.splits)
qed

text \<open>C8, as the code has it, on an empty store: a first call, and a call refused by a maximum of 0.\<close>

theorem admitted_call_writes_fresh_expiry_witness:
  "allowed (fst (createRateLimit opts_60_3 req0 0 world0))
   \<and> expiry_of (requestsKey req0) (snd (createRateLimit opts_60_3 req0 0 world0)) = Some 60000
   \<and> \<not> allowed (fst (createRateLimit (opts_60_3\<lparr>maxRequests := 0\<rparr>) req0 0 world0))
   \<and> redis_strings (snd (createRateLimit (opts_60_3\<lparr>maxRequests := 0\<rparr>) req0 0 world0))
        = redis_strings world0"
proof -
  have nf: "redis_faults world0 = []" by (simp add: world0_def)
  have n: "0 < windowMs opts_60_3" by (simp add: opts_60_3_def)
  have n0: "0 < windowMs (opts_60_3\<lparr>maxRequests := 0\<rparr>)" by (simp add: opts_60_3_def)
  have cs: "ceil_seconds (windowMs opts_60_3) = 60"
    by (simp add: opts_60_3_def ceil_seconds_def)
  have b: "\<not> js_ge (stored_count 0 (requestsKey req0) world0) (Num (maxRequests opts_60_3))"
    by (simp add: req0_fresh opts_60_3_def)
  have c: "js_ge (stored_count 0 (requestsKey req0) world0) (Num (maxRequests (opts_60_3\<lparr>maxRequests := 0\<rparr>)))"
    by (simp add: req0_fresh)
  show ?thesis
    using admitted_call_writes_fresh_expiry [OF nf n, of 0 req0] b
      admitted_call_writes_fresh_expiry [OF nf n0, of 0 req0] c
    by (simp add: cs)
qed

text \<open>C3, as the code has it: five calls in a row on an empty store, at most three pass.\<close>

theorem sequential_calls_two_round_trips_bounded_witness:
  "trace (snd (createRateLimit opts_60_3 req0 0 world0))
     = [RedisGet (requestsKey req0), RedisSetEx (requestsKey req0) 60 ''1'']
   \<and> int (length (filter allowed (fst (serve_all opts_60_3 req0
          [(0, 200), (1, 200), (2, 200), (3, 200), (4, 200)] world0)))) \<le> 3"
proof -
  have nf: "redis_faults world0 = []" by (simp add: world0_def)
  have d: "\<not> skipSuccessfulRequests opts_60_3" "\<not> skipFailedRequests opts_60_3"
    by (simp_all add: opts_60_3_def)
  have cs: "ceil_seconds (windowMs opts_60_3) = 60"
    by (simp add: opts_60_3_def ceil_seconds_def)
  have m: "maxRequests opts_60_3 = 3" and win: "windowMs opts_60_3 = 60000"
    by (simp_all add: opts_60_3_def)
  have one: "int_toString 1 = ''1''"
    by (simp add: int_toString_def nat_digits.simps digit_char_def)
  have fresh: "live_value 0 (redis_strings world0 (requestsKey req0)) = None"
    by (simp add: world0_def live_value_def)
  have tr: "trace world0 = []" by (simp add: world0_def)
  show ?thesis
    using sequential_calls_two_round_trips_bounded [OF nf d, of 0 req0 0
        "[(0, 200), (1, 200), (2, 200), (3, 200), (4, 200)]"] fresh
    by (simp add: req0_fresh m win ceil_seconds_60000 one tr del: serve_all.simps)
qed

section \<open>Properties of the notification store\<close>

lemma db_call_ok:
  "db_faults w = [] \<Longrightarrow> db_call op w = (None, w\<lparr>trace := trace w @ [op]\<rparr>)"
  by (simp add: db_call_def)

lemma db_call_head:
  "db_faults w = f # fs \<Longrightarrow>
   db_call op w = (map_option Error f, w\<lparr>trace := trace w @ [op], db_faults := fs\<rparr>)"
  by (simp add: db_call_def)

lemma select_rule_enabled_ok:
  "db_faults w = [] \<Longrightarrow>
   select_rule_enabled uid ty w = (Inr (rule_rows uid ty w), w\<lparr>trace := trace w @ [DbSelectRule uid ty]\<rparr>)"
  by (simp add: select_rule_enabled_def db_call_ok rule_rows_def)

lemma rule_rows_trace [simp]: "rule_rows uid ty (w\<lparr>trace := tr\<rparr>) = rule_rows uid ty w"
  by (simp add: rule_rows_def)

lemma rule_rows_db_faults [simp]: "rule_rows uid ty (w\<lparr>db_faults := fs\<rparr>) = rule_rows uid ty w"
  by (simp add: rule_rows_def)

lemma durable_row_trace [simp]: "durable_row now n (w\<lparr>trace := tr\<rparr>) = durable_row now n w"
  by (simp add: durable_row_def)

lemma insert_notification_ok:
  "db_faults w = [] \<Longrightarrow>
   insert_notification now n w
     = (Inr (), w\<lparr>trace := trace w @ [DbInsertNotification (arg_userId n) (arg_type n)],
                  notifications := notifications w @ [durable_row now n w],
                  notifications_id_seq := notifications_id_seq w + 1\<rparr>)"
  by (simp add: insert_notification_def db_call_ok durable_row_def)

lemma addToSet_ok:
  "redis_faults w = [] \<Longrightarrow>
   RedisService_addToSet key v w
     = (Inr (), w\<lparr>trace := trace w @ [RedisSAdd key v],
                  redis_sets := (redis_sets w)(key := (if v \<in> set (redis_sets w key) then redis_sets w key
                                                       else redis_sets w key @ [v]))\<rparr>)"
  by (simp add: RedisService_addToSet_def redis_call_ok)

lemma getSet_ok:
  "redis_faults w = [] \<Longrightarrow>
   RedisService_getSet members_order key w
     = (Inr (members_order (redis_sets w key)), w\<lparr>trace := trace w @ [RedisSMembers key]\<rparr>)"
  by (simp add: RedisService_getSet_def redis_call_ok)

lemma removeFromSet_ok:
  "redis_faults w = [] \<Longrightarrow>
   RedisService_removeFromSet key v w
     = (Inr (), w\<lparr>trace := trace w @ [RedisSRem key v],
                  redis_sets := (redis_sets w)(key := removeAll v (redis_sets w key))\<rparr>)"
  by (simp add: RedisService_removeFromSet_def redis_call_ok)

lemma remove_each_ok:
  "redis_faults w = [] \<Longrightarrow>
   remove_each key xs w
     = (Inr (), w\<lparr>trace := trace w @ map (RedisSRem key) xs,
                  redis_sets := (redis_sets w)(key := filter (\<lambda>x. x \<notin> set xs) (redis_sets w key))\<rparr>)"
proof (induction xs arbitrary: w)
  case Nil
  then show ?case by simp
next
  case (Cons x xs)
  let ?w1 = "w\<lparr>trace := trace w @ [RedisSRem key x],
                redis_sets := (redis_sets w)(key := removeAll x (redis_sets w key))\<rparr>"
  have nf: "redis_faults ?w1 = []" using Cons.prems by simp
  have f: "filter (\<lambda>y. y \<notin> set xs) (removeAll x l) = filter (\<lambda>y. y \<noteq> x \<and> y \<notin> set xs) l" for l :: "notificationData list"
    by (induction l) auto
  show ?case
    by (simp add: removeFromSet_ok [OF Cons.prems] Cons.IH [OF nf] f cong: if_cong)
qed

lemma keep_last_50_ok:
  "redis_faults w = [] \<Longrightarrow>
   keep_last_50 members_order key w
     = (Inr (), w\<lparr>trace := trace w @ RedisSMembers key #
                      map (RedisSRem key)
                        (take (length (members_order (redis_sets w key)) - 50) (members_order (redis_sets w key))),
                  redis_sets := (redis_sets w)(key :=
                      filter (\<lambda>x. x \<notin> set (take (length (members_order (redis_sets w key)) - 50)
                                                   (members_order (redis_sets w key))))
                             (redis_sets w key))\<rparr>)"
  by (simp add: keep_last_50_def getSet_ok remove_each_ok)



lemma createNotification_enabled:
  assumes db: "db_faults w = []" and rd: "redis_faults w = []"
    and en: "isEnabled (rule_rows (arg_userId n) (arg_type n) w)"
    and s: "s = (if notificationData_of now n \<in> set (redis_sets w (redisKey (arg_userId n)))
                 then redis_sets w (redisKey (arg_userId n))
                 else redis_sets w (redisKey (arg_userId n)) @ [notificationData_of now n])"
  shows "fst (createNotification members_order now n w) = Inr ()"
    and "notifications (snd (createNotification members_order now n w))
           = notifications w @ [durable_row now n w]"
    and "redis_sets (snd (createNotification members_order now n w)) (redisKey (arg_userId n))
           = filter (\<lambda>x. x \<notin> set (take (length (members_order s) - 50) (members_order s))) s"
    and "trace (snd (createNotification members_order now n w))
           = trace w @ [DbSelectRule (arg_userId n) (arg_type n),
                        DbInsertNotification (arg_userId n) (arg_type n),
                        RedisSAdd (redisKey (arg_userId n)) (notificationData_of now n),
                        RedisSMembers (redisKey (arg_userId n))]
               @ map (RedisSRem (redisKey (arg_userId n)))
                   (take (length (members_order s) - 50) (members_order s))"
    and "console (snd (createNotification members_order now n w))
           = console w @ [ConsoleLog (''Notification created for user ''
                                       @ int_toString (arg_userId n) @ '': '' @ arg_title n)]"
  using db rd en s
  by (simp_all add: createNotification_def createNotification_try_def select_rule_enabled_ok
      insert_notification_ok addToSet_ok keep_last_50_ok console_log_def)


lemma createNotification_lookup_fault:
  assumes "db_faults w = Some m # fs"
  shows "createNotification members_order now n w
           = (Inr (), console_error ''Error creating notification:'' (Error m)
                        (w\<lparr>trace := trace w @ [DbSelectRule (arg_userId n) (arg_type n)],
                           db_faults := fs\<rparr>))"
  using assms
  by (simp add: createNotification_def createNotification_try_def select_rule_enabled_def db_call_head)

lemma createNotification_insert_fault:
  assumes "db_faults w = None # Some m # fs"
    and "isEnabled (rule_rows (arg_userId n) (arg_type n) w)"
  shows "createNotification members_order now n w
           = (Inr (), console_error ''Error creating notification:'' (Error m)
                        (w\<lparr>trace := trace w @ [DbSelectRule (arg_userId n) (arg_type n),
                                                 DbInsertNotification (arg_userId n) (arg_type n)],
                           db_faults := fs\<rparr>))"
  using assms
  by (simp add: createNotification_def createNotification_try_def select_rule_enabled_def
      insert_notification_def db_call_head)

lemma createNotification_insert_fault_disabled:
  assumes "db_faults w = None # fs"
    and "\<not> isEnabled (rule_rows (arg_userId n) (arg_type n) w)"
  shows "createNotification members_order now n w
           = (Inr (), w\<lparr>trace := trace w @ [DbSelectRule (arg_userId n) (arg_type n)], db_faults := fs\<rparr>)"
  using assms
  by (simp add: createNotification_def createNotification_try_def select_rule_enabled_def db_call_head)

lemma createNotification_resolves: "fst (createNotification members_order now n w) = Inr ()"
  by (simp add: createNotification_def split: prod.splits sum.splits)

lemma db_call_answers:
  "\<forall>f\<in>set (take (Suc k) (db_faults w)). f = None \<Longrightarrow>
   db_call op w = (None, w\<lparr>trace := trace w @ [op], db_faults := tl (db_faults w)\<rparr>)"
  by (cases "db_faults w") (simp_all add: db_call_def)

lemma answers_tl:
  "\<forall>f\<in>set (take (Suc k) fl). f = None \<Longrightarrow> \<forall>f\<in>set (take k (tl fl)). f = None"
  by (cases fl) simp_all

text \<open>The two database round trips of an enabled notification, when the database answers both.\<close>

lemma createNotification_try_db_part:
  assumes db: "\<forall>f\<in>set (take 2 (db_faults w)). f = None"
    and en: "isEnabled (rule_rows (arg_userId n) (arg_type n) w)"
    and w2: "w2 = w\<lparr>trace := trace w @ [DbSelectRule (arg_userId n) (arg_type n),
                                          DbInsertNotification (arg_userId n) (arg_type n)],
                     db_faults := tl (tl (db_faults w)),
                     notifications := notifications w @ [durable_row now n w],
                     notifications_id_seq := notifications_id_seq w + 1\<rparr>"
  shows "createNotification_try members_order now n w
           = (case RedisService_addToSet (redisKey (arg_userId n)) (notificationData_of now n) w2 of
                (Inl e, w3) \<Rightarrow> (Inl e, w3)
              | (Inr u, w3) \<Rightarrow>
                  (case keep_last_50 members_order (redisKey (arg_userId n)) w3 of
                     (Inl e, w4) \<Rightarrow> (Inl e, w4)
                   | (Inr u, w4) \<Rightarrow>
                       (Inr (), console_log (''Notification created for user ''
                                              @ int_toString (arg_userId n) @ '': '' @ arg_title n) w4)))"
proof -
  let ?w1 = "w\<lparr>trace := trace w @ [DbSelectRule (arg_userId n) (arg_type n)], db_faults := tl (db_faults w)\<rparr>"
  have a2: "\<forall>f\<in>set (take (Suc 1) (db_faults w)). f = None"
    using db by (simp add: numeral_2_eq_2)
  have s: "select_rule_enabled (arg_userId n) (arg_type n) w
             = (Inr (rule_rows (arg_userId n) (arg_type n) w), ?w1)"
    by (simp add: select_rule_enabled_def db_call_answers [OF a2] rule_rows_def)
  have a1: "\<forall>f\<in>set (take (Suc 0) (db_faults ?w1)). f = None"
    using answers_tl [OF a2] by simp
  have i: "insert_notification now n ?w1 = (Inr (), w2)"
    by (simp add: insert_notification_def db_call_answers [OF a1] w2 durable_row_def)
  show ?thesis
    using en by (simp add: createNotification_try_def s i)
qed

lemma addToSet_fault:
  "redis_faults w = Some m # fs \<Longrightarrow>
   RedisService_addToSet key v w
     = (Inl (Error m), w\<lparr>trace := trace w @ [RedisSAdd key v], redis_faults := fs\<rparr>)"
  by (simp add: RedisService_addToSet_def redis_call_head)

lemma addToSet_answers:
  "redis_faults w = None # fs \<Longrightarrow>
   RedisService_addToSet key v w
     = (Inr (), w\<lparr>trace := trace w @ [RedisSAdd key v], redis_faults := fs,
                  redis_sets := (redis_sets w)(key := (if v \<in> set (redis_sets w key) then redis_sets w key
                                                       else redis_sets w key @ [v]))\<rparr>)"
  by (simp add: RedisService_addToSet_def redis_call_head)

lemma getSet_fault:
  "redis_faults w = Some m # fs \<Longrightarrow>
   RedisService_getSet members_order key w
     = (Inl (Error m), w\<lparr>trace := trace w @ [RedisSMembers key], redis_faults := fs\<rparr>)"
  by (simp add: RedisService_getSet_def redis_call_head)

lemma getSet_answers:
  "redis_faults w = None # fs \<Longrightarrow>
   RedisService_getSet members_order key w
     = (Inr (members_order (redis_sets w key)),
        w\<lparr>trace := trace w @ [RedisSMembers key], redis_faults := fs\<rparr>)"
  by (simp add: RedisService_getSet_def redis_call_head)

lemma remove_each_fault:
  "redis_faults w = replicate k None @ Some m # fs \<Longrightarrow> k < length xs \<Longrightarrow>
   fst (remove_each key xs w) = Inl (Error m)
   \<and> console (snd (remove_each key xs w)) = console w
   \<and> notifications (snd (remove_each key xs w)) = notifications w
   \<and> trace (snd (remove_each key xs w)) = trace w @ map (RedisSRem key) (take (Suc k) xs)"
proof (induction xs arbitrary: k w)
  case Nil
  then show ?case by simp
next
  case (Cons x xs)
  show ?case
  proof (cases k)
    case 0
    then have f: "redis_faults w = Some m # fs" using Cons.prems by simp
    show ?thesis
      by (simp add: 0 RedisService_removeFromSet_def redis_call_head [OF f])
  next
    case (Suc j)
    then have f: "redis_faults w = None # (replicate j None @ Some m # fs)"
      using Cons.prems by simp
    let ?w1 = "w\<lparr>trace := trace w @ [RedisSRem key x], redis_faults := replicate j None @ Some m # fs,
                  redis_sets := (redis_sets w)(key := removeAll x (redis_sets w key))\<rparr>"
    have r: "RedisService_removeFromSet key x w = (Inr (), ?w1)"
      by (simp add: RedisService_removeFromSet_def redis_call_head [OF f])
    have f1: "redis_faults ?w1 = replicate j None @ Some m # fs" by simp
    have j: "j < length xs" using Cons.prems Suc by simp
    from Cons.IH [OF f1 j] show ?thesis
      by (simp add: r Suc)
  qed
qed


lemma addToSet_answers_fields:
  assumes "redis_faults w = None # fs"
  shows "\<exists>w3. RedisService_addToSet key v w = (Inr (), w3)
          \<and> redis_faults w3 = fs \<and> trace w3 = trace w @ [RedisSAdd key v]
          \<and> redis_sets w3 = (redis_sets w)(key := (if v \<in> set (redis_sets w key) then redis_sets w key
                                                       else redis_sets w key @ [v]))
          \<and> console w3 = console w \<and> notifications w3 = notifications w"
  by (simp add: addToSet_answers [OF assms])

lemma keep_last_50_members_fault:
  assumes "redis_faults w = Some m # fs"
  shows "\<exists>w4. keep_last_50 members_order key w = (Inl (Error m), w4)
          \<and> trace w4 = trace w @ [RedisSMembers key] \<and> redis_sets w4 = redis_sets w
          \<and> console w4 = console w \<and> notifications w4 = notifications w"
  by (simp add: keep_last_50_def getSet_fault [OF assms])

lemma keep_last_50_remove_fault:
  assumes f: "redis_faults w = None # replicate k None @ Some m # fs"
    and k: "k < length (members_order (redis_sets w key)) - 50"
  shows "\<exists>w5. keep_last_50 members_order key w = (Inl (Error m), w5)
          \<and> trace w5 = trace w @ RedisSMembers key
                          # map (RedisSRem key) (take (Suc k) (members_order (redis_sets w key)))
          \<and> console w5 = console w \<and> notifications w5 = notifications w"
proof -
  let ?ns = "members_order (redis_sets w key)"
  let ?w1 = "w\<lparr>trace := trace w @ [RedisSMembers key], redis_faults := replicate k None @ Some m # fs\<rparr>"
  let ?old = "take (length ?ns - 50) ?ns"
  have f1: "redis_faults ?w1 = replicate k None @ Some m # fs" by simp
  have kl: "k < length ?old" using k by simp
  have big: "50 < length ?ns" using k by simp
  have tk: "take (Suc k) ?old = take (Suc k) ?ns"
    using k by (simp add: min_def)
  note re = remove_each_fault [OF f1 kl, of key]
  obtain w5 where r5: "remove_each key ?old ?w1 = (Inl (Error m), w5)"
    using re by (cases "remove_each key ?old ?w1") auto
  have k5: "keep_last_50 members_order key w = (Inl (Error m), w5)"
    unfolding keep_last_50_def getSet_answers [OF f] using big by (simp add: r5)
  have mk: "min (Suc k) (length ?ns - 50) = Suc k"
    using k by simp
  show ?thesis
    using re by (simp add: k5 r5 mk)
qed

lemma cache50_props:
  "length cache50 = 50" "notificationData_of 51 note7 \<notin> set cache50"
  "notificationData_of 1 note7 \<in> set cache50"
  by (auto simp add: cache50_def notificationData_of_def)



text \<open>
  C10. \<open>createNotification\<close> always resolves: whatever the stores do, the caller gets
  \<open>Inr ()\<close>, the value of a successful call. Whichever round trip fails first, the
  failure is caught inside the call and logged with \<open>console.error\<close> under the prefix
  \<open>Error creating notification:\<close>, once, and no later round trip is made:
  the rule lookup (no durable row, no real-time entry), the durable insert (no durable
  row, no real-time entry), the append to the real-time set (the durable row stays, the
  set is unchanged), the listing of the set and each removal of the eviction (the durable
  row stays). The rule is the row of \<open>notification_rules\<close> for the user and the type of
  the call, and the durable row is the one the INSERT statement writes.
\<close>

theorem createNotification_never_raises:
  assumes result: "w' = snd (createNotification members_order now n w)"
    and enabled: "enabled = isEnabled (map rule_enabled
                     (filter (\<lambda>r. rule_user_id r = arg_userId n \<and> rule_type r = arg_type n)
                             (notification_rules w)))"
    and row: "row = \<lparr>n_id = notifications_id_seq w + 1, n_user_id = arg_userId n,
                      n_type = arg_type n, n_title = arg_title n, n_message = arg_message n,
                      n_data = (case arg_data n of None \<Rightarrow> ''{}'' | Some j \<Rightarrow> j),
                      n_is_read = False, n_created_at = now\<rparr>"
    and added: "s = (if notificationData_of now n \<in> set (redis_sets w (redisKey (arg_userId n)))
                     then redis_sets w (redisKey (arg_userId n))
                     else redis_sets w (redisKey (arg_userId n)) @ [notificationData_of now n])"
  shows "fst (createNotification members_order now n w) = Inr ()
   \<and> (db_faults w = Some m # fs \<longrightarrow>
         notifications w' = notifications w \<and> redis_sets w' = redis_sets w
         \<and> trace w' = trace w @ [DbSelectRule (arg_userId n) (arg_type n)]
         \<and> console w' = console w @ [ConsoleError ''Error creating notification:'' (Error m)])
   \<and> (db_faults w = None # Some m # fs \<longrightarrow>
         notifications w' = notifications w \<and> redis_sets w' = redis_sets w)
   \<and> (db_faults w = None # Some m # fs \<and> enabled \<longrightarrow>
         trace w' = trace w @ [DbSelectRule (arg_userId n) (arg_type n),
                               DbInsertNotification (arg_userId n) (arg_type n)]
         \<and> console w' = console w @ [ConsoleError ''Error creating notification:'' (Error m)])
   \<and> ((\<forall>f\<in>set (take 2 (db_faults w)). f = None) \<and> enabled \<and> redis_faults w = Some m # fs \<longrightarrow>
         notifications w' = notifications w @ [row] \<and> redis_sets w' = redis_sets w
         \<and> trace w' = trace w @ [DbSelectRule (arg_userId n) (arg_type n),
                               DbInsertNotification (arg_userId n) (arg_type n),
                               RedisSAdd (redisKey (arg_userId n)) (notificationData_of now n)]
         \<and> console w' = console w @ [ConsoleError ''Error creating notification:'' (Error m)])
   \<and> ((\<forall>f\<in>set (take 2 (db_faults w)). f = None) \<and> enabled \<and> redis_faults w = None # Some m # fs \<longrightarrow>
         notifications w' = notifications w @ [row]
         \<and> redis_sets w' = (redis_sets w)(redisKey (arg_userId n) := s)
         \<and> trace w' = trace w @ [DbSelectRule (arg_userId n) (arg_type n),
                               DbInsertNotification (arg_userId n) (arg_type n),
                               RedisSAdd (redisKey (arg_userId n)) (notificationData_of now n),
                               RedisSMembers (redisKey (arg_userId n))]
         \<and> console w' = console w @ [ConsoleError ''Error creating notification:'' (Error m)])
   \<and> ((\<forall>f\<in>set (take 2 (db_faults w)). f = None) \<and> enabled
        \<and> redis_faults w = None # None # replicate k None @ Some m # fs
        \<and> k < length (members_order s) - 50 \<longrightarrow>
         notifications w' = notifications w @ [row]
         \<and> trace w' = trace w @ [DbSelectRule (arg_userId n) (arg_type n),
                               DbInsertNotification (arg_userId n) (arg_type n),
                               RedisSAdd (redisKey (arg_userId n)) (notificationData_of now n),
                               RedisSMembers (redisKey (arg_userId n))]
                        @ map (RedisSRem (redisKey (arg_userId n))) (take (Suc k) (members_order s))
         \<and> console w' = console w @ [ConsoleError ''Error creating notification:'' (Error m)])"
proof -
  let ?U = "arg_userId n" and ?T = "arg_type n"
  let ?K = "redisKey (arg_userId n)" and ?E = "notificationData_of now n"
  let ?w2 = "w\<lparr>trace := trace w @ [DbSelectRule ?U ?T, DbInsertNotification ?U ?T],
               db_faults := tl (tl (db_faults w)),
               notifications := notifications w @ [durable_row now n w],
               notifications_id_seq := notifications_id_seq w + 1\<rparr>"
  have en: "enabled = isEnabled (rule_rows ?U ?T w)"
    by (simp add: enabled rule_rows_def)
  have rw: "row = durable_row now n w"
    by (simp add: row durable_row_def)
  have c0: "fst (createNotification members_order now n w) = Inr ()"
    by (rule createNotification_resolves)
  have c1: "notifications w' = notifications w \<and> redis_sets w' = redis_sets w
         \<and> trace w' = trace w @ [DbSelectRule ?U ?T]
         \<and> console w' = console w @ [ConsoleError ''Error creating notification:'' (Error m)]"
    if f: "db_faults w = Some m # fs"
    by (simp add: result createNotification_lookup_fault [OF f] console_error_def)
  have c2: "notifications w' = notifications w \<and> redis_sets w' = redis_sets w"
    if f: "db_faults w = None # Some m # fs"
  proof (cases "isEnabled (rule_rows ?U ?T w)")
    case True
    show ?thesis
      by (simp add: result createNotification_insert_fault [OF f True] console_error_def)
  next
    case False
    show ?thesis
      by (simp add: result createNotification_insert_fault_disabled [OF f False])
  qed
  have c3: "trace w' = trace w @ [DbSelectRule ?U ?T, DbInsertNotification ?U ?T]
         \<and> console w' = console w @ [ConsoleError ''Error creating notification:'' (Error m)]"
    if f: "db_faults w = None # Some m # fs \<and> enabled"
  proof -
    from f have a: "db_faults w = None # Some m # fs" and b: "isEnabled (rule_rows ?U ?T w)"
      by (simp_all add: en)
    show ?thesis
      by (simp add: result createNotification_insert_fault [OF a b] console_error_def)
  qed
  have c4: "notifications w' = notifications w @ [row] \<and> redis_sets w' = redis_sets w
         \<and> trace w' = trace w @ [DbSelectRule ?U ?T, DbInsertNotification ?U ?T, RedisSAdd ?K ?E]
         \<and> console w' = console w @ [ConsoleError ''Error creating notification:'' (Error m)]"
    if h: "(\<forall>f\<in>set (take 2 (db_faults w)). f = None) \<and> enabled \<and> redis_faults w = Some m # fs"
  proof -
    from h have db: "\<forall>f\<in>set (take 2 (db_faults w)). f = None"
      and b: "isEnabled (rule_rows ?U ?T w)" and f: "redis_faults ?w2 = Some m # fs"
      by (simp_all add: en)
    have "createNotification_try members_order now n w
            = (Inl (Error m), ?w2\<lparr>trace := trace ?w2 @ [RedisSAdd ?K ?E], redis_faults := fs\<rparr>)"
      by (simp add: createNotification_try_db_part [OF db b refl] addToSet_fault [OF f])
    then show ?thesis
      by (simp add: result createNotification_def console_error_def rw)
  qed
  have c5: "notifications w' = notifications w @ [row]
         \<and> redis_sets w' = (redis_sets w)(?K := s)
         \<and> trace w' = trace w @ [DbSelectRule ?U ?T, DbInsertNotification ?U ?T, RedisSAdd ?K ?E,
                               RedisSMembers ?K]
         \<and> console w' = console w @ [ConsoleError ''Error creating notification:'' (Error m)]"
    if h: "(\<forall>f\<in>set (take 2 (db_faults w)). f = None) \<and> enabled \<and> redis_faults w = None # Some m # fs"
  proof -
    from h have db: "\<forall>f\<in>set (take 2 (db_faults w)). f = None"
      and b: "isEnabled (rule_rows ?U ?T w)" and f: "redis_faults ?w2 = None # Some m # fs"
      by (simp_all add: en)
    obtain w3 where a3: "RedisService_addToSet ?K ?E ?w2 = (Inr (), w3)"
      and f3: "redis_faults w3 = Some m # fs"
      and t3: "trace w3 = trace ?w2 @ [RedisSAdd ?K ?E]"
      and s3: "redis_sets w3 = (redis_sets w)(?K := s)"
      and o3: "console w3 = console w" "notifications w3 = notifications w @ [durable_row now n w]"
      using addToSet_answers_fields [OF f, of ?K ?E] by (auto simp add: added)
    obtain w4 where a4: "keep_last_50 members_order ?K w3 = (Inl (Error m), w4)"
      and t4: "trace w4 = trace w3 @ [RedisSMembers ?K]" and s4: "redis_sets w4 = redis_sets w3"
      and o4: "console w4 = console w3" "notifications w4 = notifications w3"
      using keep_last_50_members_fault [OF f3] by blast
    have "createNotification_try members_order now n w = (Inl (Error m), w4)"
      by (simp add: createNotification_try_db_part [OF db b refl] a3 a4)
    then show ?thesis
      by (simp add: result createNotification_def console_error_def rw t3 t4 s3 s4 o3 o4)
  qed
  have c6: "notifications w' = notifications w @ [row]
         \<and> trace w' = trace w @ [DbSelectRule ?U ?T, DbInsertNotification ?U ?T, RedisSAdd ?K ?E,
                               RedisSMembers ?K]
                        @ map (RedisSRem ?K) (take (Suc k) (members_order s))
         \<and> console w' = console w @ [ConsoleError ''Error creating notification:'' (Error m)]"
    if h: "(\<forall>f\<in>set (take 2 (db_faults w)). f = None) \<and> enabled
        \<and> redis_faults w = None # None # replicate k None @ Some m # fs
        \<and> k < length (members_order s) - 50"
  proof -
    from h have db: "\<forall>f\<in>set (take 2 (db_faults w)). f = None"
      and b: "isEnabled (rule_rows ?U ?T w)"
      and f: "redis_faults ?w2 = None # (None # replicate k None @ Some m # fs)"
      and kk: "k < length (members_order s) - 50"
      by (simp_all add: en)
    obtain w3 where a3: "RedisService_addToSet ?K ?E ?w2 = (Inr (), w3)"
      and f3: "redis_faults w3 = None # replicate k None @ Some m # fs"
      and t3: "trace w3 = trace ?w2 @ [RedisSAdd ?K ?E]"
      and s3: "redis_sets w3 = (redis_sets w)(?K := s)"
      and o3: "console w3 = console w" "notifications w3 = notifications w @ [durable_row now n w]"
      using addToSet_answers_fields [OF f, of ?K ?E] by (auto simp add: added)
    have k3: "k < length (members_order (redis_sets w3 ?K)) - 50"
      using kk by (simp add: s3)
    obtain w5 where a5: "keep_last_50 members_order ?K w3 = (Inl (Error m), w5)"
      and t5: "trace w5 = trace w3 @ RedisSMembers ?K
                          # map (RedisSRem ?K) (take (Suc k) (members_order (redis_sets w3 ?K)))"
      and o5: "console w5 = console w3" "notifications w5 = notifications w3"
      using keep_last_50_remove_fault [of w3 k m fs members_order ?K, OF f3 k3] by blast
    have "createNotification_try members_order now n w = (Inl (Error m), w5)"
      by (simp add: createNotification_try_db_part [OF db b refl] a3 a5)
    then show ?thesis
      by (simp add: result createNotification_def console_error_def rw t3 t5 s3 o3 o5)
  qed
  show ?thesis
    using c0 c1 c2 c3 c4 c5 c6 by blast
qed


text \<open>
  C10, for user 7 with a full real-time set: a failure of the rule lookup, of the durable
  insert, of the append, of the listing and of the first removal, one at a time.
\<close>

theorem createNotification_never_raises_witness:
  "console (snd (createNotification rev 51 note7 (world50\<lparr>db_faults := [Some ''connection terminated'']\<rparr>)))
     = [ConsoleError ''Error creating notification:'' (Error ''connection terminated'')]
   \<and> notifications (snd (createNotification rev 51 note7 (world50\<lparr>db_faults := [Some ''connection terminated'']\<rparr>)))
       = notifications world50
   \<and> console (snd (createNotification rev 51 note7 (world50\<lparr>db_faults := [None, Some ''connection terminated'']\<rparr>)))
       = [ConsoleError ''Error creating notification:'' (Error ''connection terminated'')]
   \<and> console (snd (createNotification rev 51 note7 (world50\<lparr>redis_faults := [Some ''ECONNRESET'']\<rparr>)))
       = [ConsoleError ''Error creating notification:'' (Error ''ECONNRESET'')]
   \<and> notifications (snd (createNotification rev 51 note7 (world50\<lparr>redis_faults := [Some ''ECONNRESET'']\<rparr>)))
       = notifications world50 @ [row51]
   \<and> console (snd (createNotification rev 51 note7 (world50\<lparr>redis_faults := [None, Some ''ECONNRESET'']\<rparr>)))
       = [ConsoleError ''Error creating notification:'' (Error ''ECONNRESET'')]
   \<and> console (snd (createNotification rev 51 note7 (world50\<lparr>redis_faults := [None, None, Some ''ECONNRESET'']\<rparr>)))
       = [ConsoleError ''Error creating notification:'' (Error ''ECONNRESET'')]"
proof -
  have base: "console world50 = []" "notification_rules world50 = []" "db_faults world50 = []"
      "redis_faults world50 = []" "notifications_id_seq world50 = 50"
      "redis_sets world50 (redisKey 7) = cache50"
    by (simp_all add: world50_def world0_def)
  have u: "arg_userId note7 = 7" by (simp add: note7_def)
  have en: "isEnabled (map rule_enabled (filter (\<lambda>r. rule_user_id r = arg_userId note7 \<and> rule_type r = arg_type note7) []))"
    by (simp add: isEnabled_def)
  have r51: "\<lparr>n_id = 50 + 1, n_user_id = arg_userId note7,
              n_type = arg_type note7, n_title = arg_title note7, n_message = arg_message note7,
              n_data = (case arg_data note7 of None \<Rightarrow> ''{}'' | Some j \<Rightarrow> j),
              n_is_read = False, n_created_at = 51\<rparr> = row51"
    by (simp add: row51_def note7_def)
  have big: "0 < length (rev (if notificationData_of 51 note7 \<in> set cache50 then cache50
                               else cache50 @ [notificationData_of 51 note7])) - 50"
    using cache50_props by simp
  note t = createNotification_never_raises [OF refl refl refl refl, where members_order = rev
      and now = 51 and n = note7]
  have 1: "console (snd (createNotification rev 51 note7 (world50\<lparr>db_faults := [Some ''connection terminated'']\<rparr>)))
             = [ConsoleError ''Error creating notification:'' (Error ''connection terminated'')]
           \<and> notifications (snd (createNotification rev 51 note7 (world50\<lparr>db_faults := [Some ''connection terminated'']\<rparr>)))
             = notifications world50"
    using t [where w = "world50\<lparr>db_faults := [Some ''connection terminated'']\<rparr>"
        and m = "''connection terminated''" and fs = "[]"]
    by (simp add: base)
  have 2: "console (snd (createNotification rev 51 note7 (world50\<lparr>db_faults := [None, Some ''connection terminated'']\<rparr>)))
             = [ConsoleError ''Error creating notification:'' (Error ''connection terminated'')]"
    using t [where w = "world50\<lparr>db_faults := [None, Some ''connection terminated'']\<rparr>"
        and m = "''connection terminated''" and fs = "[]"] en
    by (simp add: base)
  have 3: "console (snd (createNotification rev 51 note7 (world50\<lparr>redis_faults := [Some ''ECONNRESET'']\<rparr>)))
             = [ConsoleError ''Error creating notification:'' (Error ''ECONNRESET'')]
           \<and> notifications (snd (createNotification rev 51 note7 (world50\<lparr>redis_faults := [Some ''ECONNRESET'']\<rparr>)))
             = notifications world50 @ [row51]"
    using t [where w = "world50\<lparr>redis_faults := [Some ''ECONNRESET'']\<rparr>"
        and m = "''ECONNRESET''" and fs = "[]"] en r51
    by (simp add: base)
  have 4: "console (snd (createNotification rev 51 note7 (world50\<lparr>redis_faults := [None, Some ''ECONNRESET'']\<rparr>)))
             = [ConsoleError ''Error creating notification:'' (Error ''ECONNRESET'')]"
    using t [where w = "world50\<lparr>redis_faults := [None, Some ''ECONNRESET'']\<rparr>"
        and m = "''ECONNRESET''" and fs = "[]"] en
    by (simp add: base)
  have 5: "console (snd (createNotification rev 51 note7 (world50\<lparr>redis_faults := [None, None, Some ''ECONNRESET'']\<rparr>)))
             = [ConsoleError ''Error creating notification:'' (Error ''ECONNRESET'')]"
    using t [where w = "world50\<lparr>redis_faults := [None, None, Some ''ECONNRESET'']\<rparr>"
        and m = "''ECONNRESET''" and fs = "[]" and k = 0] en big
    by (simp add: base u cache50_props(2) cong: if_cong)
  show ?thesis
    using 1 2 3 4 5 by simp
qed


text \<open>
  C4 fails on the code. The real-time store is a Redis set, whose members come back in
  an order the server chooses. For a user with 50 entries and a server that lists the
  newest member first, the 51st insert removes the entry just added: the oldest entry
  stays, the set is what it was, and the durable log holds 51 rows.
\<close>

theorem fifty_first_insert_evicts_newest:
  "redis_sets (snd (createNotification rev 51 note7 world50)) (redisKey 7) = cache50
   \<and> notificationData_of 51 note7
        \<notin> set (redis_sets (snd (createNotification rev 51 note7 world50)) (redisKey 7))
   \<and> notificationData_of 1 note7
        \<in> set (redis_sets (snd (createNotification rev 51 note7 world50)) (redisKey 7))
   \<and> length (notifications (snd (createNotification rev 51 note7 world50))) = 51"
proof -
  have db: "db_faults world50 = []" and rd: "redis_faults world50 = []"
    by (simp_all add: world50_def world0_def)
  have u: "arg_userId note7 = 7" by (simp add: note7_def)
  have en: "isEnabled (rule_rows (arg_userId note7) (arg_type note7) world50)"
    by (simp add: isEnabled_def rule_rows_def world50_def world0_def)
  have old: "redis_sets world50 (redisKey 7) = cache50"
    by (simp add: world50_def)
  have s: "cache50 @ [notificationData_of 51 note7]
             = (if notificationData_of 51 note7 \<in> set (redis_sets world50 (redisKey (arg_userId note7)))
                then redis_sets world50 (redisKey (arg_userId note7))
                else redis_sets world50 (redisKey (arg_userId note7)) @ [notificationData_of 51 note7])"
    by (simp add: u old cache50_props)
  note l = createNotification_enabled [OF db rd en s, of rev]
  have c: "redis_sets (snd (createNotification rev 51 note7 world50)) (redisKey 7) = cache50"
  proof -
    have "filter (\<lambda>x. x \<noteq> notificationData_of 51 note7) cache50 = cache50"
      using cache50_props(2) by (auto simp add: filter_id_conv)
    then show ?thesis
      using l(3) cache50_props(1) by (simp add: u)
  qed
  have n: "length (notifications world50) = 50"
    by (simp add: world50_def)
  show ?thesis
    using c l(2) n cache50_props by simp
qed

section \<open>Properties of the retention sweep\<close>

lemma delete_analytics_ok:
  "db_faults w = [] \<Longrightarrow>
   delete_analytics cutoff w
     = (Inr (), w\<lparr>trace := trace w @ [DbDeleteAnalytics],
                  analytics_data := filter (\<lambda>r. \<not> analytics_created_at r < cutoff) (analytics_data w)\<rparr>)"
  by (simp add: delete_analytics_def db_call_ok)

lemma delete_conversations_ok:
  "db_faults w = [] \<Longrightarrow>
   delete_conversations cutoff w
     = (Inr (), w\<lparr>trace := trace w @ [DbDeleteConversations],
                  chatbot_conversations :=
                    filter (\<lambda>r. \<not> conversation_created_at r < cutoff) (chatbot_conversations w)\<rparr>)"
  by (simp add: delete_conversations_def db_call_ok)

lemma delete_failed_posts_ok:
  "db_faults w = [] \<Longrightarrow>
   delete_failed_posts cutoff w
     = (Inr (), w\<lparr>trace := trace w @ [DbDeleteFailedPosts],
                  scheduled_posts :=
                    filter (\<lambda>p. \<not> (post_status p = failed \<and> post_created_at p < cutoff)) (scheduled_posts w)\<rparr>)"
  by (simp add: delete_failed_posts_def db_call_ok)

lemma cleanupOldData_ok:
  "db_faults w = [] \<Longrightarrow>
   cleanupOldData minus_months now w
     = (Inr (), w\<lparr>trace := trace w @ [DbDeleteAnalytics, DbDeleteConversations, DbDeleteFailedPosts],
                  console := console w @ [ConsoleLog ''Cleanup completed''],
                  analytics_data :=
                    filter (\<lambda>r. \<not> analytics_created_at r < minus_months now 12) (analytics_data w),
                  chatbot_conversations :=
                    filter (\<lambda>r. \<not> conversation_created_at r < minus_months now 6) (chatbot_conversations w),
                  scheduled_posts :=
                    filter (\<lambda>p. \<not> (post_status p = failed \<and> post_created_at p < now - week_ms))
                           (scheduled_posts w)\<rparr>)"
  by (simp add: cleanupOldData_def cleanupOldData_try_def delete_analytics_ok
      delete_conversations_ok delete_failed_posts_ok console_log_def)

lemma cleanupOldData_first_fails:
  "db_faults w = Some m # fs \<Longrightarrow>
   cleanupOldData minus_months now w
     = (Inr (), w\<lparr>trace := trace w @ [DbDeleteAnalytics], db_faults := fs,
                  console := console w @ [ConsoleError ''Error during cleanup:'' (Error m)]\<rparr>)"
  by (simp add: cleanupOldData_def cleanupOldData_try_def delete_analytics_def db_call_head
      console_error_def)

lemma cleanupOldData_second_fails:
  "db_faults w = None # Some m # fs \<Longrightarrow>
   cleanupOldData minus_months now w
     = (Inr (), w\<lparr>trace := trace w @ [DbDeleteAnalytics, DbDeleteConversations], db_faults := fs,
                  console := console w @ [ConsoleError ''Error during cleanup:'' (Error m)],
                  analytics_data :=
                    filter (\<lambda>r. \<not> analytics_created_at r < minus_months now 12) (analytics_data w)\<rparr>)"
  by (simp add: cleanupOldData_def cleanupOldData_try_def delete_analytics_def
      delete_conversations_def db_call_head console_error_def)

lemma cleanupOldData_third_fails:
  "db_faults w = None # None # Some m # fs \<Longrightarrow>
   cleanupOldData minus_months now w
     = (Inr (), w\<lparr>trace := trace w @ [DbDeleteAnalytics, DbDeleteConversations, DbDeleteFailedPosts],
                  db_faults := fs,
                  console := console w @ [ConsoleError ''Error during cleanup:'' (Error m)],
                  analytics_data :=
                    filter (\<lambda>r. \<not> analytics_created_at r < minus_months now 12) (analytics_data w),
                  chatbot_conversations :=
                    filter (\<lambda>r. \<not> conversation_created_at r < minus_months now 6) (chatbot_conversations w)\<rparr>)"
  by (simp add: cleanupOldData_def cleanupOldData_try_def delete_analytics_def
      delete_conversations_def delete_failed_posts_def db_call_head console_error_def)

text \<open>
  C5, as the code has it. The sweep always returns. With the database answering, the
  three deletes are issued in order, each by its own window: analytics rows older than
  twelve months, conversation rows older than six months, failed posts older than one
  week. A delete that fails is logged and ends the sweep: what was deleted before it
  stays deleted, and the deletes after it are not issued in that tick.
\<close>

theorem cleanup_in_order_until_first_failure:
  "(db_faults w = [] \<longrightarrow>
      trace (snd (cleanupOldData minus_months now w))
        = trace w @ [DbDeleteAnalytics, DbDeleteConversations, DbDeleteFailedPosts]
      \<and> analytics_data (snd (cleanupOldData minus_months now w))
          = filter (\<lambda>r. \<not> analytics_created_at r < minus_months now 12) (analytics_data w)
      \<and> chatbot_conversations (snd (cleanupOldData minus_months now w))
          = filter (\<lambda>r. \<not> conversation_created_at r < minus_months now 6) (chatbot_conversations w)
      \<and> scheduled_posts (snd (cleanupOldData minus_months now w))
          = filter (\<lambda>p. \<not> (post_status p = failed \<and> post_created_at p < now - week_ms))
                   (scheduled_posts w))
   \<and> (db_faults w = Some m # fs \<longrightarrow>
      trace (snd (cleanupOldData minus_months now w)) = trace w @ [DbDeleteAnalytics]
      \<and> analytics_data (snd (cleanupOldData minus_months now w)) = analytics_data w
      \<and> chatbot_conversations (snd (cleanupOldData minus_months now w)) = chatbot_conversations w
      \<and> scheduled_posts (snd (cleanupOldData minus_months now w)) = scheduled_posts w
      \<and> console (snd (cleanupOldData minus_months now w))
          = console w @ [ConsoleError ''Error during cleanup:'' (Error m)])
   \<and> (db_faults w = None # Some m # fs \<longrightarrow>
      trace (snd (cleanupOldData minus_months now w))
        = trace w @ [DbDeleteAnalytics, DbDeleteConversations]
      \<and> analytics_data (snd (cleanupOldData minus_months now w))
          = filter (\<lambda>r. \<not> analytics_created_at r < minus_months now 12) (analytics_data w)
      \<and> chatbot_conversations (snd (cleanupOldData minus_months now w)) = chatbot_conversations w
      \<and> scheduled_posts (snd (cleanupOldData minus_months now w)) = scheduled_posts w
      \<and> console (snd (cleanupOldData minus_months now w))
          = console w @ [ConsoleError ''Error during cleanup:'' (Error m)])
   \<and> (db_faults w = None # None # Some m # fs \<longrightarrow>
      trace (snd (cleanupOldData minus_months now w))
        = trace w @ [DbDeleteAnalytics, DbDeleteConversations, DbDeleteFailedPosts]
      \<and> analytics_data (snd (cleanupOldData minus_months now w))
          = filter (\<lambda>r. \<not> analytics_created_at r < minus_months now 12) (analytics_data w)
      \<and> chatbot_conversations (snd (cleanupOldData minus_months now w))
          = filter (\<lambda>r. \<not> conversation_created_at r < minus_months now 6) (chatbot_conversations w)
      \<and> scheduled_posts (snd (cleanupOldData minus_months now w)) = scheduled_posts w
      \<and> console (snd (cleanupOldData minus_months now w))
          = console w @ [ConsoleError ''Error during cleanup:'' (Error m)])
   \<and> fst (cleanupOldData minus_months now w) = Inr ()"
proof (intro conjI impI)
  show "fst (cleanupOldData minus_months now w) = Inr ()"
    by (simp add: cleanupOldData_def split: prod.splits sum.splits)
qed (simp_all add: cleanupOldData_ok cleanupOldData_first_fails cleanupOldData_second_fails
      cleanupOldData_third_fails)

lemma world_stale_fields:
  "db_faults world_stale = []" "trace world_stale = []" "console world_stale = []"
  "map analytics_created_at (analytics_data world_stale) = [0]"
  "map conversation_created_at (chatbot_conversations world_stale) = [0]"
  "map post_created_at (scheduled_posts world_stale) = [0]"
  "map post_status (scheduled_posts world_stale) = [failed]"
  by (simp_all add: world_stale_def world0_def)

text \<open>
  C5 as stated fails: when the analytics delete fails, the sweep issues no other
  delete; the conversation and the failed post that the same sweep removes when
  nothing fails are still there.
\<close>

theorem failed_delete_blocks_the_others:
  "trace (snd (cleanupOldData months_of_30_days two_years_on
                 (world_stale\<lparr>db_faults := [Some ''deadlock detected'']\<rparr>)))
     = [DbDeleteAnalytics]
   \<and> chatbot_conversations (snd (cleanupOldData months_of_30_days two_years_on
                 (world_stale\<lparr>db_faults := [Some ''deadlock detected'']\<rparr>)))
       = chatbot_conversations world_stale
   \<and> scheduled_posts (snd (cleanupOldData months_of_30_days two_years_on
                 (world_stale\<lparr>db_faults := [Some ''deadlock detected'']\<rparr>)))
       = scheduled_posts world_stale
   \<and> chatbot_conversations (snd (cleanupOldData months_of_30_days two_years_on world_stale)) = []
   \<and> scheduled_posts (snd (cleanupOldData months_of_30_days two_years_on world_stale)) = []"
proof -
  have f: "db_faults (world_stale\<lparr>db_faults := [Some ''deadlock detected'']\<rparr>) = Some ''deadlock detected'' # []"
    by simp
  have a: "chatbot_conversations (snd (cleanupOldData months_of_30_days two_years_on world_stale)) = []"
    by (simp add: cleanupOldData_ok world_stale_fields)
       (simp add: world_stale_def world0_def months_of_30_days_def two_years_on_def)
  have b: "scheduled_posts (snd (cleanupOldData months_of_30_days two_years_on world_stale)) = []"
    by (simp add: cleanupOldData_ok world_stale_fields)
       (simp add: world_stale_def world0_def week_ms_def two_years_on_def)
  show ?thesis
    using a b by (simp add: cleanupOldData_first_fails [OF f] world_stale_fields)
qed

text \<open>C5, as the code has it, two years on: a sweep with no fault, and one whose second delete fails.\<close>

theorem cleanup_in_order_until_first_failure_witness:
  "trace (snd (cleanupOldData months_of_30_days two_years_on world_stale))
     = [DbDeleteAnalytics, DbDeleteConversations, DbDeleteFailedPosts]
   \<and> trace (snd (cleanupOldData months_of_30_days two_years_on
                 (world_stale\<lparr>db_faults := [None, Some ''deadlock detected'']\<rparr>)))
     = [DbDeleteAnalytics, DbDeleteConversations]
   \<and> chatbot_conversations (snd (cleanupOldData months_of_30_days two_years_on
                 (world_stale\<lparr>db_faults := [None, Some ''deadlock detected'']\<rparr>)))
       = chatbot_conversations world_stale"
proof -
  have f: "db_faults (world_stale\<lparr>db_faults := [None, Some ''deadlock detected'']\<rparr>)
             = None # Some ''deadlock detected'' # []"
    by simp
  show ?thesis
    using cleanup_in_order_until_first_failure [of world_stale months_of_30_days two_years_on]
      cleanup_in_order_until_first_failure
        [of "world_stale\<lparr>db_faults := [None, Some ''deadlock detected'']\<rparr>"
            months_of_30_days two_years_on "''deadlock detected''" "[]"] f
    by (simp add: world_stale_fields)
qed

section \<open>Properties of the dispatch tick\<close>

text \<open>publishPost touches the console only, and its result does not depend on the stores.\<close>

lemma publish_to_fields:
  "fst (publish_to name pc row w) = (case pc row of None \<Rightarrow> Inr () | Some m \<Rightarrow> Inl (Error m))"
  "db_faults (snd (publish_to name pc row w)) = db_faults w"
  "trace (snd (publish_to name pc row w)) = trace w"
  "scheduled_posts (snd (publish_to name pc row w)) = scheduled_posts w"
  "notifications (snd (publish_to name pc row w)) = notifications w"
  "redis_sets (snd (publish_to name pc row w)) = redis_sets w"
  by (simp_all add: publish_to_def console_log_def console_error_def split: option.splits)

lemma publishPost_fields:
  "db_faults (snd (publishPost pc row w)) = db_faults w"
  "trace (snd (publishPost pc row w)) = trace w"
  "scheduled_posts (snd (publishPost pc row w)) = scheduled_posts w"
  "notifications (snd (publishPost pc row w)) = notifications w"
  "redis_sets (snd (publishPost pc row w)) = redis_sets w"
  by (simp_all add: publishPost_def Let_def publish_to_fields)

lemma publishPost_result: "fst (publishPost pc row w) = fst (publishPost pc row w')"
  by (simp add: publishPost_def Let_def publish_to_fields)

lemma mark_published_ok:
  "db_faults w = [] \<Longrightarrow>
   mark_published now pid w
     = (Inr (), w\<lparr>trace := trace w @ [DbMarkPublished pid],
                  scheduled_posts :=
                    map (\<lambda>p. if post_id p = pid
                              then p\<lparr>post_status := published, post_posted_at := Some now\<rparr>
                              else p) (scheduled_posts w)\<rparr>)"
  by (simp add: mark_published_def db_call_ok)

lemma mark_failed_ok:
  "db_faults w = [] \<Longrightarrow>
   mark_failed pid w
     = (Inr (), w\<lparr>trace := trace w @ [DbMarkFailed pid],
                  scheduled_posts :=
                    map (\<lambda>p. if post_id p = pid then p\<lparr>post_status := failed\<rparr> else p)
                        (scheduled_posts w)\<rparr>)"
  by (simp add: mark_failed_def db_call_ok)

lemma step_fields:
  assumes db: "db_faults w = []"
  shows "db_faults (step_world pc now row w) = []"
    and "notifications (step_world pc now row w) = notifications w"
    and "redis_sets (step_world pc now row w) = redis_sets w"
    and "scheduled_posts (step_world pc now row w)
           = map (\<lambda>p. if post_id p = post_id (fst row)
                       then recorded now (publishes pc row) p else p)
                 (scheduled_posts w)"
proof -
  obtain r w1 where p: "publishPost pc row w = (r, w1)" by (cases "publishPost pc row w")
  have f: "db_faults w1 = []" "notifications w1 = notifications w" "redis_sets w1 = redis_sets w"
      "scheduled_posts w1 = scheduled_posts w"
    using publishPost_fields [of pc row w] db by (simp_all add: p)
  show "db_faults (step_world pc now row w) = []"
    by (cases r) (simp_all add: step_world_def publish_and_mark_def p mark_published_ok mark_failed_ok
        f console_error_def console_log_def)
  show "notifications (step_world pc now row w) = notifications w"
    by (cases r) (simp_all add: step_world_def publish_and_mark_def p mark_published_ok mark_failed_ok
        f console_error_def console_log_def)
  show "redis_sets (step_world pc now row w) = redis_sets w"
    by (cases r) (simp_all add: step_world_def publish_and_mark_def p mark_published_ok mark_failed_ok
        f console_error_def console_log_def)
  show "scheduled_posts (step_world pc now row w)
           = map (\<lambda>p. if post_id p = post_id (fst row)
                       then recorded now (publishes pc row) p else p)
                 (scheduled_posts w)"
  proof -
    have pb: "publishes pc row = (r = Inr ())"
      using publishPost_result [of pc row world0 w] by (simp add: publishes_def p)
    show ?thesis
      by (cases r) (simp_all add: step_world_def publish_and_mark_def p mark_published_ok mark_failed_ok
          f console_error_def console_log_def recorded_def pb)
  qed
qed

lemma process_rows_step:
  assumes db: "db_faults w = []"
  shows "process_rows pc now (row # rest) w = process_rows pc now rest (step_world pc now row w)"
proof -
  obtain r w1 where p: "publishPost pc row w = (r, w1)" by (cases "publishPost pc row w")
  have f: "db_faults w1 = []"
    using publishPost_fields(1) [of pc row w] db by (simp add: p)
  show ?thesis
    by (cases r) (simp_all add: step_world_def publish_and_mark_def p mark_published_ok mark_failed_ok
        f console_error_def console_log_def)
qed


lemma step_console:
  assumes db: "db_faults w = []"
  shows "\<exists>ls. console (step_world pc now row w) = console w @ ls
          \<and> (\<forall>e. fst (publishPost pc row world0) = Inl e \<longrightarrow>
                ConsoleError (''Failed to publish post '' @ int_toString (post_id (fst row)) @ '':'') e
                  \<in> set ls)"
proof -
  obtain r w1 where p: "publishPost pc row w = (r, w1)" by (cases "publishPost pc row w")
  have f: "db_faults w1 = []"
    using publishPost_fields(1) [of pc row w] db by (simp add: p)
  have r: "fst (publishPost pc row world0) = r"
    using publishPost_result [of pc row world0 w] by (simp add: p)
  have c: "\<exists>ls. console w1 = console w @ ls"
    using p by (auto simp add: publishPost_def Let_def publish_to_def console_log_def console_error_def
        split: if_splits option.splits)
  then obtain ls where ls: "console w1 = console w @ ls" by blast
  show ?thesis
    by (cases r) (simp_all add: step_world_def publish_and_mark_def p mark_published_ok mark_failed_ok
        f r console_error_def console_log_def ls)
qed

lemma recorded_id [simp]: "post_id (recorded now ok p) = post_id p"
  by (simp add: recorded_def)

lemma find_by_key:
  "distinct (map f xs) \<Longrightarrow> x \<in> set xs \<Longrightarrow> find (\<lambda>y. f y = f x) xs = Some x"
  by (induction xs) (auto simp add: rev_image_eqI)

lemma process_rows_ok:
  "db_faults w = [] \<Longrightarrow> distinct (map (\<lambda>row. post_id (fst row)) rows) \<Longrightarrow>
   fst (process_rows pc now rows w) = Inr ()
   \<and> db_faults (snd (process_rows pc now rows w)) = []
   \<and> notifications (snd (process_rows pc now rows w)) = notifications w
   \<and> redis_sets (snd (process_rows pc now rows w)) = redis_sets w
   \<and> scheduled_posts (snd (process_rows pc now rows w))
       = map (\<lambda>p. case find (\<lambda>row. post_id (fst row) = post_id p) rows of
                    None \<Rightarrow> p
                  | Some row \<Rightarrow> recorded now (publishes pc row) p)
             (scheduled_posts w)"
proof (induction rows arbitrary: w)
  case Nil
  then show ?case by simp
next
  case (Cons row rest)
  let ?w1 = "step_world pc now row w"
  note st = step_fields [OF Cons.prems(1), of pc now row]
  have d: "distinct (map (\<lambda>row. post_id (fst row)) rest)"
    and nin: "post_id (fst row) \<notin> (\<lambda>row. post_id (fst row)) ` set rest"
    using Cons.prems(2) by simp_all
  note ih = Cons.IH [OF st(1) d]
  have none: "find (\<lambda>r. post_id (fst r) = post_id (fst row)) rest = None"
  proof -
    have "\<not> (\<exists>r\<in>set rest. post_id (fst r) = post_id (fst row))"
      using nin by (metis (mono_tags, lifting) imageI)
    then show ?thesis
      unfolding find_None_iff by blast
  qed
  have m: "(case find (\<lambda>r. post_id (fst r) = post_id (if post_id p = post_id (fst row)
                                                        then recorded now (publishes pc row) p else p)) rest of
              None \<Rightarrow> (if post_id p = post_id (fst row) then recorded now (publishes pc row) p else p)
            | Some r \<Rightarrow> recorded now (publishes pc r)
                         (if post_id p = post_id (fst row) then recorded now (publishes pc row) p else p))
           = (case find (\<lambda>r. post_id (fst r) = post_id p) (row # rest) of
                None \<Rightarrow> p
              | Some r \<Rightarrow> recorded now (publishes pc r) p)" for p
    using none by (cases "post_id p = post_id (fst row)") (simp_all)
  show ?case
    using ih by (simp add: process_rows_step [OF Cons.prems(1)] st m del: process_rows.simps find.simps)
qed

lemma process_rows_console:
  "db_faults w = [] \<Longrightarrow>
   set (console w) \<subseteq> set (console (snd (process_rows pc now rows w)))
   \<and> (\<forall>row\<in>set rows. \<forall>e. fst (publishPost pc row world0) = Inl e \<longrightarrow>
         ConsoleError (''Failed to publish post '' @ int_toString (post_id (fst row)) @ '':'') e
           \<in> set (console (snd (process_rows pc now rows w))))"
proof (induction rows arbitrary: w)
  case Nil
  then show ?case by simp
next
  case (Cons row rest)
  let ?w1 = "step_world pc now row w"
  have db1: "db_faults ?w1 = []"
    by (rule step_fields(1) [OF Cons.prems])
  obtain ls where ls: "console ?w1 = console w @ ls"
    and e: "\<forall>e. fst (publishPost pc row world0) = Inl e \<longrightarrow>
                ConsoleError (''Failed to publish post '' @ int_toString (post_id (fst row)) @ '':'') e
                  \<in> set ls"
    using step_console [OF Cons.prems, of pc now row] by blast
  note ih = Cons.IH [OF db1]
  have sub: "set (console w) \<union> set ls \<subseteq> set (console (snd (process_rows pc now rest ?w1)))"
    using ih ls by simp
  show ?case
    using ih e sub
    by (auto simp add: process_rows_step [OF Cons.prems] simp del: process_rows.simps)
qed


lemma matching_accounts_atmost_one:
  "distinct (map account_id accts) \<Longrightarrow> length (filter (\<lambda>a. k = account_id a) accts) \<le> 1"
proof (induction accts)
  case Nil
  then show ?case by simp
next
  case (Cons a accts)
  then have "k = account_id a \<Longrightarrow> filter (\<lambda>a. k = account_id a) accts = []"
    by (auto simp add: filter_empty_conv)
  with Cons show ?case by auto
qed

lemma joined_ids:
  "(\<lambda>row. post_id (fst row)) `
     set (concat (map (\<lambda>p. map (\<lambda>a. (p, a)) (filter (\<lambda>a. post_account_id p = account_id a) accts)) ps))
   \<subseteq> post_id ` set ps"
  by auto

lemma joined_distinct:
  assumes ak: "distinct (map account_id accts)"
  shows "distinct (map post_id ps) \<Longrightarrow>
         distinct (map (\<lambda>row. post_id (fst row))
           (concat (map (\<lambda>p. map (\<lambda>a. (p, a)) (filter (\<lambda>a. post_account_id p = account_id a) accts)) ps)))"
proof (induction ps)
  case Nil
  then show ?case by simp
next
  case (Cons p ps)
  let ?m = "filter (\<lambda>a. post_account_id p = account_id a) accts"
  have one: "length ?m \<le> 1"
    by (rule matching_accounts_atmost_one [OF ak])
  have here: "distinct (map (\<lambda>row. post_id (fst row)) (map (\<lambda>a. (p, a)) ?m))"
  proof (cases ?m)
    case Nil
    then show ?thesis by simp
  next
    case (Cons a rest)
    with one have "rest = []" by simp
    with Cons show ?thesis by simp
  qed
  have there: "distinct (map (\<lambda>row. post_id (fst row))
           (concat (map (\<lambda>p. map (\<lambda>a. (p, a)) (filter (\<lambda>a. post_account_id p = account_id a) accts)) ps)))"
    using Cons by simp
  have apart: "post_id p \<notin> post_id ` set ps"
    using Cons.prems by simp
  have disj: "set (map (\<lambda>row. post_id (fst row)) (map (\<lambda>a. (p, a)) ?m))
                \<inter> set (map (\<lambda>row. post_id (fst row))
           (concat (map (\<lambda>p. map (\<lambda>a. (p, a)) (filter (\<lambda>a. post_account_id p = account_id a) accts)) ps)))
              = {}"
    using apart by auto
  show ?case
    using here there disj by simp
qed

lemma due_rows_distinct:
  assumes pk: "distinct (map post_id (scheduled_posts w))"
    and ak: "distinct (map account_id (social_accounts w))"
  shows "distinct (map (\<lambda>row. post_id (fst row)) (due_rows now w))"
proof -
  let ?due = "filter (\<lambda>p. post_status p = pending \<and> post_scheduled_time p \<le> now) (scheduled_posts w)"
  let ?joined = "concat (map (\<lambda>p. map (\<lambda>a. (p, a))
                    (filter (\<lambda>a. post_account_id p = account_id a) (social_accounts w))) ?due)"
  let ?f = "\<lambda>row :: due_row. post_scheduled_time (fst row)"
  let ?g = "\<lambda>row :: due_row. post_id (fst row)"
  have "distinct (map post_id ?due)"
    using pk by (simp add: distinct_map_filter)
  then have j: "distinct (map ?g ?joined)"
    by (rule joined_distinct [OF ak])
  have "mset (map ?g (sort_key ?f ?joined)) = mset (map ?g ?joined)"
    by simp
  then have "distinct (map ?g (sort_key ?f ?joined))"
    using j mset_eq_imp_distinct_iff by blast
  then have "distinct (take 10 (map ?g (sort_key ?f ?joined)))"
    by (rule distinct_take)
  then show ?thesis
    by (simp add: due_rows_def take_map)
qed

lemma due_rows_from_table: "row \<in> set (due_rows now w) \<Longrightarrow> fst row \<in> set (scheduled_posts w)"
proof -
  assume "row \<in> set (due_rows now w)"
  then have "row \<in> set (sort_key (\<lambda>row. post_scheduled_time (fst row))
       (concat (map (\<lambda>p. map (\<lambda>a. (p, a))
                              (filter (\<lambda>a. post_account_id p = account_id a) (social_accounts w)))
                    (filter (\<lambda>p. post_status p = pending \<and> post_scheduled_time p \<le> now)
                            (scheduled_posts w)))))"
    unfolding due_rows_def by (rule in_set_takeD)
  then show ?thesis by auto
qed

lemma due_rows_trace [simp]: "due_rows now (w\<lparr>trace := tr\<rparr>) = due_rows now w"
  by (simp add: due_rows_def)

lemma process_rows_resolves:
  "db_faults w = [] \<Longrightarrow> fst (process_rows pc now rows w) = Inr ()"
proof (induction rows arbitrary: w)
  case Nil
  then show ?case by simp
next
  case (Cons row rest)
  have "db_faults (step_world pc now row w) = []"
    by (rule step_fields(1) [OF Cons.prems])
  then show ?case
    using Cons.IH by (simp add: process_rows_step [OF Cons.prems] del: process_rows.simps)
qed

lemma processScheduledPosts_ok:
  assumes db: "db_faults w = []"
  shows "processScheduledPosts pc now w
           = (Inr (), snd (process_rows pc now (due_rows now w) (w\<lparr>trace := trace w @ [DbSelectDuePosts]\<rparr>)))"
proof -
  have s: "select_due_posts now w = (Inr (due_rows now w), w\<lparr>trace := trace w @ [DbSelectDuePosts]\<rparr>)"
    by (simp add: select_due_posts_def db_call_ok [OF db])
  have "db_faults (w\<lparr>trace := trace w @ [DbSelectDuePosts]\<rparr>) = []"
    using db by simp
  from process_rows_resolves [OF this, of pc now "due_rows now w"] show ?thesis
    by (auto simp add: processScheduledPosts_def dispatch_resume_def s split: prod.splits sum.splits)
qed

text \<open>
  C1, as the code has it. With the database answering and ids that are keys, for every
  row a dispatch tick selects: when the publish call returns, the post is recorded as
  \<open>published\<close> with \<open>posted_at\<close> the current time; when it throws, the post is recorded
  as \<open>failed\<close> with nothing else changed, and the error goes to the console. The tick
  writes no notification, durable or real-time, in either case.
\<close>

theorem dispatch_tick_records_status_only:
  assumes db: "db_faults w = []"
    and pk: "distinct (map post_id (scheduled_posts w))"
    and ak: "distinct (map account_id (social_accounts w))"
  shows "(\<forall>row\<in>set (due_rows now w).
            (publishes pc row \<longrightarrow>
               (fst row)\<lparr>post_status := published, post_posted_at := Some now\<rparr>
                 \<in> set (scheduled_posts (snd (processScheduledPosts pc now w)))
               \<and> (\<forall>p\<in>set (scheduled_posts (snd (processScheduledPosts pc now w))).
                     post_id p = post_id (fst row) \<longrightarrow>
                     p = (fst row)\<lparr>post_status := published, post_posted_at := Some now\<rparr>))
          \<and> (\<not> publishes pc row \<longrightarrow>
               (fst row)\<lparr>post_status := failed\<rparr>
                 \<in> set (scheduled_posts (snd (processScheduledPosts pc now w)))
               \<and> (\<forall>p\<in>set (scheduled_posts (snd (processScheduledPosts pc now w))).
                     post_id p = post_id (fst row) \<longrightarrow> p = (fst row)\<lparr>post_status := failed\<rparr>)
               \<and> (\<forall>e. fst (publishPost pc row world0) = Inl e \<longrightarrow>
                     ConsoleError (''Failed to publish post '' @ int_toString (post_id (fst row)) @ '':'') e
                       \<in> set (console (snd (processScheduledPosts pc now w))))))
       \<and> notifications (snd (processScheduledPosts pc now w)) = notifications w
       \<and> redis_sets (snd (processScheduledPosts pc now w)) = redis_sets w"
proof -
  let ?w1 = "w\<lparr>trace := trace w @ [DbSelectDuePosts]\<rparr>"
  let ?rows = "due_rows now w"
  let ?w2 = "snd (process_rows pc now ?rows ?w1)"
  let ?F = "\<lambda>p. case find (\<lambda>row. post_id (fst row) = post_id p) ?rows of
                    None \<Rightarrow> p
                  | Some row \<Rightarrow> recorded now (publishes pc row) p"
  have out: "snd (processScheduledPosts pc now w) = ?w2"
    by (simp add: processScheduledPosts_ok [OF db])
  have db1: "db_faults ?w1 = []" using db by simp
  have dr: "distinct (map (\<lambda>row. post_id (fst row)) ?rows)"
    by (rule due_rows_distinct [OF pk ak])
  note pr = process_rows_ok [OF db1 dr, of pc now]
  have posts: "scheduled_posts ?w2 = map ?F (scheduled_posts w)"
    using pr by simp
  have Fid: "post_id (?F p) = post_id p" for p
    by (simp split: option.splits)
  have key: "recorded now (publishes pc row) (fst row) \<in> set (scheduled_posts ?w2)
             \<and> (\<forall>p\<in>set (scheduled_posts ?w2). post_id p = post_id (fst row) \<longrightarrow>
                   p = recorded now (publishes pc row) (fst row))"
    if row: "row \<in> set ?rows" for row
  proof -
    have fnd: "find (\<lambda>r. post_id (fst r) = post_id (fst row)) ?rows = Some row"
      by (rule find_by_key [OF dr row])
    have mem: "fst row \<in> set (scheduled_posts w)"
      by (rule due_rows_from_table [OF row])
    have Frow: "?F (fst row) = recorded now (publishes pc row) (fst row)"
      by (simp add: fnd)
    have a: "recorded now (publishes pc row) (fst row) \<in> set (scheduled_posts ?w2)"
    proof -
      have "?F (fst row) \<in> ?F ` set (scheduled_posts w)"
        using mem by (rule imageI)
      then show ?thesis
        unfolding posts set_map Frow .
    qed
    have b: "p = recorded now (publishes pc row) (fst row)"
      if p: "p \<in> set (scheduled_posts ?w2)" and i: "post_id p = post_id (fst row)" for p
    proof -
      obtain q where q: "q \<in> set (scheduled_posts w)" and pq: "p = ?F q"
        using p unfolding posts by auto
      have "post_id q = post_id (fst row)"
        using i Fid [of q] pq by simp
      then have qe: "q = fst row"
        using pk q mem by (meson distinct_map inj_onD)
      show ?thesis
        by (simp only: pq qe Frow)
    qed
    show ?thesis using a b by blast
  qed
  have cons: "\<forall>row\<in>set ?rows. \<forall>e. fst (publishPost pc row world0) = Inl e \<longrightarrow>
         ConsoleError (''Failed to publish post '' @ int_toString (post_id (fst row)) @ '':'') e
           \<in> set (console ?w2)"
    using process_rows_console [OF db1, of pc now ?rows] by blast
  show ?thesis
    unfolding out
  proof (intro conjI ballI impI allI)
    fix row assume row: "row \<in> set ?rows" and ok: "publishes pc row"
    show "(fst row)\<lparr>post_status := published, post_posted_at := Some now\<rparr> \<in> set (scheduled_posts ?w2)"
      using key [OF row] ok by (simp add: recorded_def)
    fix p assume "p \<in> set (scheduled_posts ?w2)" "post_id p = post_id (fst row)"
    then show "p = (fst row)\<lparr>post_status := published, post_posted_at := Some now\<rparr>"
      using key [OF row] ok by (simp add: recorded_def)
  next
    fix row assume row: "row \<in> set ?rows" and ko: "\<not> publishes pc row"
    show "(fst row)\<lparr>post_status := failed\<rparr> \<in> set (scheduled_posts ?w2)"
      using key [OF row] ko by (simp add: recorded_def)
    {
      fix p assume "p \<in> set (scheduled_posts ?w2)" "post_id p = post_id (fst row)"
      then show "p = (fst row)\<lparr>post_status := failed\<rparr>"
        using key [OF row] ko by (simp add: recorded_def)
    }
    fix e assume "fst (publishPost pc row world0) = Inl e"
    then show "ConsoleError (''Failed to publish post '' @ int_toString (post_id (fst row)) @ '':'') e
                 \<in> set (console ?w2)"
      using cons row by blast
  next
    show "notifications ?w2 = notifications w" using pr by simp
    show "redis_sets ?w2 = redis_sets w" using pr by simp
  qed
qed


lemma world_due_fields:
  "db_faults world_due = []" "redis_faults world_due = []"
  "scheduled_posts world_due = [post_due]" "social_accounts world_due = [account_twitter]"
  "notifications world_due = []" "redis_sets world_due k = []" "trace world_due = []"
  by (simp_all add: world_due_def world0_def)

lemma due_rows_world_due: "due_rows 100 world_due = [(post_due, account_twitter)]"
  by (simp add: due_rows_def world_due_fields post_due_def account_twitter_def)

lemma twitter_lower: "toLowerCase ''Twitter'' = ''twitter''"
  by code_simp

lemma publishes_up: "publishes platform_up (post_due, account_twitter)"
  by (simp add: publishes_def publishPost_def Let_def account_twitter_def twitter_lower
      publish_to_def platform_up_def)

lemma publishes_down:
  "fst (publishPost platform_down (post_due, account_twitter) world0)
     = Inl (Error ''Request failed with status code 401'')"
  by (simp add: publishPost_def Let_def account_twitter_def twitter_lower
      publish_to_def platform_down_def)

text \<open>
  C1 as stated fails: after a tick in which the one due post of user 7 fails to
  publish, the post is \<open>failed\<close> with no error text on it, and user 7 has no notification,
  durable or real-time; after a tick in which it publishes, there is none either.
\<close>

theorem failed_publish_leaves_no_error_and_no_notification:
  "scheduled_posts (snd (processScheduledPosts platform_down 100 world_due))
     = [post_due\<lparr>post_status := failed\<rparr>]
   \<and> post_error_message (post_due\<lparr>post_status := failed\<rparr>) = None
   \<and> notifications (snd (processScheduledPosts platform_down 100 world_due)) = []
   \<and> redis_sets (snd (processScheduledPosts platform_down 100 world_due)) (redisKey 7) = []
   \<and> scheduled_posts (snd (processScheduledPosts platform_up 100 world_due))
       = [post_due\<lparr>post_status := published, post_posted_at := Some 100\<rparr>]
   \<and> notifications (snd (processScheduledPosts platform_up 100 world_due)) = []
   \<and> redis_sets (snd (processScheduledPosts platform_up 100 world_due)) (redisKey 7) = []"
proof -
  let ?w1 = "world_due\<lparr>trace := [DbSelectDuePosts]\<rparr>"
  have db1: "db_faults ?w1 = []" by (simp add: world_due_fields)
  have nd: "\<not> publishes platform_down (post_due, account_twitter)"
    by (simp add: publishes_def publishes_down)
  have sel: "snd (processScheduledPosts pc 100 world_due)
               = snd (process_rows pc 100 [(post_due, account_twitter)] ?w1)" for pc
    by (simp add: processScheduledPosts_ok world_due_fields due_rows_world_due
        del: process_rows.simps)
  have run: "snd (processScheduledPosts pc 100 world_due)
               = step_world pc 100 (post_due, account_twitter) ?w1" for pc
    unfolding sel process_rows_step [OF db1] by simp
  note st = step_fields [OF db1, of _ 100 "(post_due, account_twitter)"]
  have posts: "scheduled_posts (snd (processScheduledPosts pc 100 world_due))
                 = [recorded 100 (publishes pc (post_due, account_twitter)) post_due]" for pc
    by (simp add: run st(4) world_due_fields)
  have quiet: "notifications (snd (processScheduledPosts pc 100 world_due)) = []"
      "redis_sets (snd (processScheduledPosts pc 100 world_due)) (redisKey 7) = []" for pc
    by (simp_all add: run st(2,3) world_due_fields)
  have none: "post_error_message (post_due\<lparr>post_status := failed\<rparr>) = None"
    by (simp add: post_due_def)
  show ?thesis
    by (simp add: posts quiet none nd publishes_up recorded_def)
qed

text \<open>C1, as the code has it, for the due post of user 7 on a platform that answers and on one that refuses.\<close>

theorem dispatch_tick_records_status_only_witness:
  "post_due\<lparr>post_status := published, post_posted_at := Some 100\<rparr>
     \<in> set (scheduled_posts (snd (processScheduledPosts platform_up 100 world_due)))
   \<and> post_due\<lparr>post_status := failed\<rparr>
       \<in> set (scheduled_posts (snd (processScheduledPosts platform_down 100 world_due)))
   \<and> ConsoleError ''Failed to publish post 1:'' (Error ''Request failed with status code 401'')
       \<in> set (console (snd (processScheduledPosts platform_down 100 world_due)))
   \<and> notifications (snd (processScheduledPosts platform_down 100 world_due)) = []"
proof -
  have pk: "distinct (map post_id (scheduled_posts world_due))"
    and ak: "distinct (map account_id (social_accounts world_due))"
    by (simp_all add: world_due_fields)
  have nd: "\<not> publishes platform_down (post_due, account_twitter)"
    by (simp add: publishes_def publishes_down)
  have one: "int_toString (post_id post_due) = ''1''"
    by (simp add: post_due_def int_toString_def nat_digits.simps digit_char_def)
  show ?thesis
    using dispatch_tick_records_status_only [OF world_due_fields(1) pk ak, of 100 platform_up]
      dispatch_tick_records_status_only [OF world_due_fields(1) pk ak, of 100 platform_down]
      publishes_up nd publishes_down
    by (simp add: due_rows_world_due world_due_fields one)
qed

section \<open>Properties of the ticks\<close>

lemma db_call_trace: "trace (snd (db_call op w)) = trace w @ [op]"
  by (simp add: db_call_def Let_def split: list.splits)

lemma start_registry:
  "fst (start [] w0)
     = [(''postScheduler'', \<lparr>cronTime = ''0 * * * * *'', onTick = ProcessScheduledPosts, running = True\<rparr>),
        (''analytics'', \<lparr>cronTime = ''0 0 * * * *'', onTick = CollectAnalytics, running = True\<rparr>),
        (''cleanup'', \<lparr>cronTime = ''0 0 0 * * *'', onTick = CleanupOldData, running = True\<rparr>)]"
  by (simp add: start_def jobs_set_def Let_def)

lemma mark_published_trace: "\<exists>ops. trace (snd (mark_published now pid w)) = trace w @ ops"
  using db_call_trace [of "DbMarkPublished pid" w]
  by (auto simp add: mark_published_def split: prod.splits option.splits)

lemma mark_failed_trace: "\<exists>ops. trace (snd (mark_failed pid w)) = trace w @ ops"
  using db_call_trace [of "DbMarkFailed pid" w]
  by (auto simp add: mark_failed_def split: prod.splits option.splits)

lemma publish_and_mark_trace: "\<exists>ops. trace (snd (publish_and_mark pc now row w)) = trace w @ ops"
proof -
  obtain r w1 where p: "publishPost pc row w = (r, w1)" by (cases "publishPost pc row w")
  have t: "trace w1 = trace w"
    using publishPost_fields(2) [of pc row w] by (simp add: p)
  obtain ops where m: "trace (snd (mark_published now (post_id (fst row)) w1)) = trace w1 @ ops"
    using mark_published_trace by blast
  show ?thesis
    using t m
    by (cases r) (auto simp add: publish_and_mark_def p console_log_def split: prod.splits sum.splits)
qed

lemma process_rows_Cons_fail:
  "publish_and_mark pc now row w = (Inl e, w1) \<Longrightarrow>
   mark_failed (post_id (fst row))
     (console_error (''Failed to publish post '' @ int_toString (post_id (fst row)) @ '':'') e w1) = (f, w3) \<Longrightarrow>
   process_rows pc now (row # rest) w
     = (case f of Inl e2 \<Rightarrow> (Inl e2, w3) | Inr u \<Rightarrow> process_rows pc now rest w3)"
  by simp

lemma process_rows_trace: "\<exists>ops. trace (snd (process_rows pc now rows w)) = trace w @ ops"
proof (induction rows arbitrary: w)
  case Nil
  then show ?case by simp
next
  case (Cons row rest)
  obtain r w1 where p: "publish_and_mark pc now row w = (r, w1)" by (cases "publish_and_mark pc now row w")
  obtain ops1 where t1: "trace w1 = trace w @ ops1"
    using publish_and_mark_trace [of pc now row w] by (auto simp add: p)
  show ?case
  proof (cases r)
    case (Inr u)
    obtain ops where "trace (snd (process_rows pc now rest w1)) = trace w1 @ ops"
      using Cons.IH by blast
    then show ?thesis
      by (simp add: p Inr t1)
  next
    case (Inl e)
    let ?w2 = "console_error (''Failed to publish post '' @ int_toString (post_id (fst row)) @ '':'') e w1"
    obtain f w3 where m: "mark_failed (post_id (fst row)) ?w2 = (f, w3)"
      by (cases "mark_failed (post_id (fst row)) ?w2")
    have tc: "trace ?w2 = trace w1"
      by (simp add: console_error_def)
    obtain ops2 where "trace (snd (mark_failed (post_id (fst row)) ?w2)) = trace ?w2 @ ops2"
      using mark_failed_trace by blast
    then have t2: "trace w3 = trace w1 @ ops2"
      by (simp only: m tc snd_conv)
    obtain ops where t3: "trace (snd (process_rows pc now rest w3)) = trace w3 @ ops"
      using Cons.IH by blast
    show ?thesis
      unfolding process_rows_Cons_fail [OF p [unfolded Inl] m]
      by (cases f) (simp_all add: t1 t2 t3)
  qed
qed

lemma processScheduledPosts_first:
  "\<exists>rest. trace (snd (processScheduledPosts pc now w)) = trace w @ DbSelectDuePosts # rest"
proof -
  obtain r w1 where s: "select_due_posts now w = (r, w1)" by (cases "select_due_posts now w")
  have t1: "trace w1 = trace w @ [DbSelectDuePosts]"
    using db_call_trace [of DbSelectDuePosts w] s
    by (auto simp add: select_due_posts_def split: prod.splits option.splits)
  show ?thesis
  proof (cases r)
    case (Inl e)
    then show ?thesis
      by (simp add: processScheduledPosts_def s dispatch_resume_def console_error_def t1)
  next
    case (Inr rows)
    obtain ops where "trace (snd (process_rows pc now rows w1)) = trace w1 @ ops"
      using process_rows_trace by blast
    then show ?thesis
      by (auto simp add: processScheduledPosts_def s dispatch_resume_def Inr console_error_def t1
          split: prod.splits sum.splits)
  qed
qed

lemma delete_traces:
  "\<exists>ops. trace (snd (delete_conversations c w)) = trace w @ ops"
  "\<exists>ops. trace (snd (delete_failed_posts c w)) = trace w @ ops"
  using db_call_trace [of DbDeleteConversations w] db_call_trace [of DbDeleteFailedPosts w]
  by (auto simp add: delete_conversations_def delete_failed_posts_def split: prod.splits option.splits)

lemma cleanupOldData_first:
  "\<exists>rest. trace (snd (cleanupOldData mm now w)) = trace w @ DbDeleteAnalytics # rest"
proof -
  obtain r w1 where a: "delete_analytics (mm now 12) w = (r, w1)" by (cases "delete_analytics (mm now 12) w")
  have t1: "trace w1 = trace w @ [DbDeleteAnalytics]"
    using db_call_trace [of DbDeleteAnalytics w] a
    by (auto simp add: delete_analytics_def split: prod.splits option.splits)
  obtain r2 w2 where b: "delete_conversations (mm now 6) w1 = (r2, w2)"
    by (cases "delete_conversations (mm now 6) w1")
  obtain ops2 where t2: "trace w2 = trace w1 @ ops2"
    using delete_traces(1) [of "mm now 6" w1] by (auto simp add: b)
  obtain r3 w3 where c: "delete_failed_posts (now - week_ms) w2 = (r3, w3)"
    by (cases "delete_failed_posts (now - week_ms) w2")
  obtain ops3 where t3: "trace w3 = trace w2 @ ops3"
    using delete_traces(2) [of "now - week_ms" w2] by (auto simp add: c)
  show ?thesis
    by (cases r; cases r2; cases r3)
       (simp_all add: cleanupOldData_def cleanupOldData_try_def a b c t1 t2 t3
          console_error_def console_log_def)
qed

lemma getAnalytics_trace: "trace (snd (getAnalytics pm account w)) = trace w"
  by (simp add: getAnalytics_def Let_def console_error_def split: sum.splits)

lemma upsert_metric_trace: "\<exists>ops. trace (snd (upsert_metric now aid metric w)) = trace w @ ops"
  using db_call_trace [of "DbUpsertMetric aid (fst metric) (snd metric)" w]
  by (auto simp add: upsert_metric_def Let_def split: prod.splits option.splits)

lemma upsert_metrics_trace: "\<exists>ops. trace (snd (upsert_metrics now aid metrics w)) = trace w @ ops"
proof (induction metrics arbitrary: w)
  case Nil
  then show ?case by simp
next
  case (Cons metric rest)
  obtain r w1 where u: "upsert_metric now aid metric w = (r, w1)" by (cases "upsert_metric now aid metric w")
  obtain ops1 where t1: "trace w1 = trace w @ ops1"
    using upsert_metric_trace [of now aid metric w] by (auto simp add: u)
  obtain ops where t2: "trace (snd (upsert_metrics now aid rest w1)) = trace w1 @ ops"
    using Cons.IH by blast
  show ?case
    by (cases r) (simp_all add: u t1 t2)
qed

lemma collect_accounts_Cons:
  "getAnalytics pm account w = (analytics, w1) \<Longrightarrow>
   upsert_metrics now (account_id account) analytics w1 = (r, w2) \<Longrightarrow>
   collect_accounts pm now (account # rest) w
     = (case r of
          Inr u \<Rightarrow> collect_accounts pm now rest
                     (console_log (''Collected analytics for account '' @ int_toString (account_id account)) w2)
        | Inl e \<Rightarrow> collect_accounts pm now rest
                     (console_error (''Failed to collect analytics for account ''
                                      @ int_toString (account_id account) @ '':'') e w2))"
  by simp

lemma collect_accounts_trace: "\<exists>ops. trace (collect_accounts pm now accounts w) = trace w @ ops"
proof (induction accounts arbitrary: w)
  case Nil
  then show ?case by simp
next
  case (Cons account rest)
  obtain analytics w1 where g: "getAnalytics pm account w = (analytics, w1)"
    by (cases "getAnalytics pm account w")
  have t1: "trace w1 = trace w"
    using getAnalytics_trace [of pm account w] by (simp add: g)
  obtain r w2 where u: "upsert_metrics now (account_id account) analytics w1 = (r, w2)"
    by (cases "upsert_metrics now (account_id account) analytics w1")
  obtain ops2 where t2: "trace w2 = trace w1 @ ops2"
    using upsert_metrics_trace [of now "account_id account" analytics w1] by (auto simp add: u)
  show ?case
  proof (cases r)
    case (Inl e)
    let ?w3 = "console_error (''Failed to collect analytics for account ''
                                  @ int_toString (account_id account) @ '':'') e w2"
    have tc: "trace ?w3 = trace w2"
      by (simp add: console_error_def)
    obtain ops where "trace (collect_accounts pm now rest ?w3) = trace ?w3 @ ops"
      using Cons.IH by blast
    then show ?thesis
      unfolding collect_accounts_Cons [OF g u] by (simp only: Inl sum.case tc t2 t1 append_assoc) blast
  next
    case (Inr x)
    let ?w3 = "console_log (''Collected analytics for account '' @ int_toString (account_id account)) w2"
    have tc: "trace ?w3 = trace w2"
      by (simp add: console_log_def)
    obtain ops where "trace (collect_accounts pm now rest ?w3) = trace ?w3 @ ops"
      using Cons.IH by blast
    then show ?thesis
      unfolding collect_accounts_Cons [OF g u] by (simp only: Inr sum.case tc t2 t1 append_assoc) blast
  qed
qed

lemma collectAnalytics_first:
  "\<exists>rest. trace (snd (collectAnalytics pm now w)) = trace w @ DbSelectActiveAccounts # rest"
proof -
  obtain r w1 where d: "db_call DbSelectActiveAccounts w = (r, w1)" by (cases "db_call DbSelectActiveAccounts w")
  have t1: "trace w1 = trace w @ [DbSelectActiveAccounts]"
    using db_call_trace [of DbSelectActiveAccounts w] by (simp add: d)
  obtain ops where t2: "trace (collect_accounts pm now (filter account_is_active (social_accounts w1)) w1)
                          = trace w1 @ ops"
    using collect_accounts_trace by blast
  show ?thesis
    by (cases r) (simp_all add: collectAnalytics_def d t1 t2 console_error_def)
qed

lemma run_action_first:
  "\<exists>rest. trace (snd (run_action env a now w)) = trace w @ first_query a # rest"
  by (cases a) (simp_all add: processScheduledPosts_first collectAnalytics_first cleanupOldData_first)

text \<open>
  C2, as the code has it. \<open>start\<close> registers three started jobs, \<open>postScheduler\<close>,
  \<open>analytics\<close> and \<open>cleanup\<close>. A tick of any of them runs the job's action, whatever the
  stores hold at that moment, so also when a previous invocation of the same job has
  not finished: the action's first store operation is always issued. No tick is
  skipped, and nothing records that an invocation is running.
\<close>

theorem every_tick_runs_the_action:
  "map fst (fst (start [] w0)) = [''postScheduler'', ''analytics'', ''cleanup'']
   \<and> (\<forall>entry\<in>set (fst (start [] w0)).
         running (snd entry)
         \<and> (\<exists>rest. trace (snd (tick env (fst (start [] w0)) (fst entry) now w))
                      = trace w @ first_query (onTick (snd entry)) # rest))"
proof -
  have r: "\<exists>rest. trace (snd (run_action env a now w)) = trace w @ first_query a # rest" for a
    by (rule run_action_first)
  show ?thesis
    using r [of ProcessScheduledPosts] r [of CollectAnalytics] r [of CleanupOldData]
    by (simp add: start_registry tick_def)
qed


lemma publishPost_up:
  "publishPost platform_up (post_due, account_twitter) w
     = (Inr (), console_log ''Twitter post published:'' w)"
  by (simp add: publishPost_def Let_def account_twitter_def twitter_lower publish_to_def platform_up_def)

lemma post_due_id: "post_id post_due = 1" "int_toString 1 = ''1''"
  by (simp_all add: post_due_def int_toString_def nat_digits.simps digit_char_def)

lemma dispatch_up_once:
  assumes db: "db_faults w = []"
  shows "trace (snd (process_rows platform_up 100 [(post_due, account_twitter)] w))
           = trace w @ [DbMarkPublished 1]"
    and "console (snd (process_rows platform_up 100 [(post_due, account_twitter)] w))
           = console w @ [ConsoleLog ''Twitter post published:'', ConsoleLog ''Published scheduled post 1'']"
    and "db_faults (snd (process_rows platform_up 100 [(post_due, account_twitter)] w)) = []"
    and "fst (process_rows platform_up 100 [(post_due, account_twitter)] w) = Inr ()"
proof -
  have nf: "db_faults (console_log ''Twitter post published:'' w) = []"
    using db by (simp add: console_log_def)
  have pm: "publish_and_mark platform_up 100 (post_due, account_twitter) w
              = (Inr (), console_log (''Published scheduled post '' @ int_toString (post_id post_due))
                           (snd (mark_published 100 (post_id post_due)
                                   (console_log ''Twitter post published:'' w))))"
    by (simp add: publish_and_mark_def publishPost_up mark_published_ok [OF nf])
  have pr: "process_rows platform_up 100 [(post_due, account_twitter)] w
              = (Inr (), console_log (''Published scheduled post '' @ int_toString (post_id post_due))
                           (snd (mark_published 100 (post_id post_due)
                                   (console_log ''Twitter post published:'' w))))"
    unfolding process_rows.simps pm by simp
  show "trace (snd (process_rows platform_up 100 [(post_due, account_twitter)] w))
           = trace w @ [DbMarkPublished 1]"
    unfolding pr by (simp add: mark_published_ok console_log_def post_due_id db)
  show "console (snd (process_rows platform_up 100 [(post_due, account_twitter)] w))
           = console w @ [ConsoleLog ''Twitter post published:'', ConsoleLog ''Published scheduled post 1'']"
    unfolding pr by (simp add: mark_published_ok console_log_def post_due_id db)
  show "db_faults (snd (process_rows platform_up 100 [(post_due, account_twitter)] w)) = []"
    unfolding pr by (simp add: mark_published_ok console_log_def db)
  show "fst (process_rows platform_up 100 [(post_due, account_twitter)] w) = Inr ()"
    unfolding pr by simp
qed

text \<open>
  C2 as stated fails: when a second tick of the dispatch job fires while the first
  invocation is waiting for its query, the second invocation runs too. Both select the
  same pending post before either records it, and both publish it.
\<close>

theorem overlapping_ticks_both_run:
  "trace (snd (overlapping_dispatch platform_up 100 world_due))
     = [DbSelectDuePosts, DbSelectDuePosts, DbMarkPublished 1, DbMarkPublished 1]
   \<and> console (snd (overlapping_dispatch platform_up 100 world_due))
       = [ConsoleLog ''Twitter post published:'', ConsoleLog ''Published scheduled post 1'',
          ConsoleLog ''Twitter post published:'', ConsoleLog ''Published scheduled post 1'']"
proof -
  let ?rows = "[(post_due, account_twitter)]"
  let ?w1 = "world_due\<lparr>trace := [DbSelectDuePosts]\<rparr>"
  let ?w2 = "world_due\<lparr>trace := [DbSelectDuePosts, DbSelectDuePosts]\<rparr>"
  let ?w3 = "snd (process_rows platform_up 100 ?rows ?w2)"
  have s1: "select_due_posts 100 world_due = (Inr ?rows, ?w1)"
    by (simp add: select_due_posts_def db_call_ok world_due_fields due_rows_world_due)
  have s2: "select_due_posts 100 ?w1 = (Inr ?rows, ?w2)"
    by (simp add: select_due_posts_def db_call_ok world_due_fields due_rows_world_due)
  have db2: "db_faults ?w2 = []" by (simp add: world_due_fields)
  note a = dispatch_up_once [OF db2]
  note b = dispatch_up_once [OF a(3)]
  have r1: "dispatch_resume platform_up 100 (Inr ?rows) ?w2 = (Inr (), ?w3)"
    using a(4) by (auto simp add: dispatch_resume_def split: prod.splits sum.splits)
  have r2: "snd (dispatch_resume platform_up 100 (Inr ?rows) ?w3)
              = snd (process_rows platform_up 100 ?rows ?w3)"
    using b(4) by (auto simp add: dispatch_resume_def split: prod.splits sum.splits)
  have o: "snd (overlapping_dispatch platform_up 100 world_due)
             = snd (process_rows platform_up 100 ?rows ?w3)"
    by (simp add: overlapping_dispatch_def s1 s2 r1 r2 del: process_rows.simps)
  have c0: "console world_due = []"
    by (simp add: world_due_def world0_def)
  show ?thesis
    unfolding o by (simp add: a(1,2) b(1,2) world_due_fields c0 del: process_rows.simps)
qed

text \<open>
  C2, as the code has it: a tick of \<open>postScheduler\<close> while an earlier invocation has issued
  its query and is still waiting.
\<close>

theorem every_tick_runs_the_action_witness:
  "\<exists>rest. trace (snd (tick env_up (fst (start [] world0)) ''postScheduler'' 100
                         (world_due\<lparr>trace := [DbSelectDuePosts]\<rparr>)))
             = DbSelectDuePosts # DbSelectDuePosts # rest"
proof -
  have m: "(''postScheduler'', \<lparr>cronTime = ''0 * * * * *'', onTick = ProcessScheduledPosts, running = True\<rparr>)
             \<in> set (fst (start [] world0))"
    by (simp add: start_registry)
  show ?thesis
    using every_tick_runs_the_action [of world0 env_up 100 "world_due\<lparr>trace := [DbSelectDuePosts]\<rparr>"] m
    by fastforce
qed

end
